theory Spec2Isabelle
  imports Main "HOL-Library.Sublist"
begin


section \<open>Strings\<close>

text \<open>
  A JavaScript string is held as a \<open>string\<close>: the bytes of its UTF-8 text. Every pattern
  the program searches for is ASCII, and an ASCII byte never occurs inside a multi-byte
  character, so searching, cutting and joining the bytes is searching, cutting and
  joining the text. The two places where JavaScript counts characters (\<open>trim\<close> and
  \<open>for ... of\<close> over a string) are written out on the bytes below.
\<close>

definition quote :: char where
  "quote = CHR 0x22"

definition newline :: char where
  "newline = CHR 0x0A"

text \<open>\<open>s.includes(pat)\<close>: \<open>pat\<close> occurs in \<open>s\<close> as a contiguous substring.\<close>

fun str_includes :: "string \<Rightarrow> string \<Rightarrow> bool" where
  "str_includes [] pat = (pat = [])"
| "str_includes (c # cs) pat = (prefix pat (c # cs) \<or> str_includes cs pat)"

text \<open>\<open>s.replace(pat, "")\<close> with a string pattern: only the first occurrence is removed.\<close>

fun replace_first :: "string \<Rightarrow> string \<Rightarrow> string" where
  "replace_first pat [] = []"
| "replace_first pat (c # cs) =
     (if prefix pat (c # cs) then drop (length pat) (c # cs) else c # replace_first pat cs)"

text \<open>\<open>s.replace(/^"/, "")\<close> and \<open>s.replace(/"$/, "")\<close>.\<close>

definition strip_leading_quote :: "string \<Rightarrow> string" where
  "strip_leading_quote s = (case s of [] \<Rightarrow> [] | c # cs \<Rightarrow> if c = quote then cs else s)"

definition strip_trailing_quote :: "string \<Rightarrow> string" where
  "strip_trailing_quote s = (if s \<noteq> [] \<and> last s = quote then butlast s else s)"

text \<open>
  The two regular expressions of the info-text strategy. \<open>[^"]+\<close> cannot cross a quote
  and must be followed by one, so at a given start the group is the whole run up to
  the next quote; the engine tries the start positions from left to right. The result is
  capture group 1 of the leftmost match, \<open>None\<close> when \<open>match\<close> returns \<open>null\<close>.
\<close>

definition depends_tail :: string where
  \<open>depends_tail = ''" depends on it''\<close>

definition exists_head :: string where
  \<open>exists_head = ''exists because "''\<close>

definition group_at :: "string \<Rightarrow> string option" where
  "group_at cs =
     (if takeWhile (\<lambda>x. x \<noteq> quote) cs \<noteq> [] \<and> prefix depends_tail (dropWhile (\<lambda>x. x \<noteq> quote) cs)
      then Some (takeWhile (\<lambda>x. x \<noteq> quote) cs) else None)"

fun match_depends :: "string \<Rightarrow> string option" where
  "match_depends [] = None"
| "match_depends (c # cs) =
     (if c = quote \<and> group_at cs \<noteq> None then group_at cs else match_depends cs)"

fun match_exists :: "string \<Rightarrow> string option" where
  "match_exists [] = None"
| "match_exists (c # cs) =
     (if prefix exists_head (c # cs) \<and> group_at (drop (length exists_head) (c # cs)) \<noteq> None
      then group_at (drop (length exists_head) (c # cs)) else match_exists cs)"

text \<open>
  \<open>s.trim()\<close> removes the white space and line terminators of ECMAScript at both ends:
  U+0009 to U+000D, U+0020, U+00A0, U+1680, U+2000 to U+200A, U+2028, U+2029, U+202F,
  U+205F, U+3000 and U+FEFF, here in their UTF-8 bytes.
\<close>

definition ascii_space :: "char \<Rightarrow> bool" where
  "ascii_space c = (c \<in> set [CHR 0x09, CHR 0x0A, CHR 0x0B, CHR 0x0C, CHR 0x0D, CHR 0x20])"

definition space2 :: "char \<Rightarrow> char \<Rightarrow> bool" where
  "space2 a b = (a = CHR 0xC2 \<and> b = CHR 0xA0)"

definition space3 :: "char \<Rightarrow> char \<Rightarrow> char \<Rightarrow> bool" where
  "space3 a b c =
     ((a, b, c) \<in> set [(CHR 0xE1, CHR 0x9A, CHR 0x80), (CHR 0xE2, CHR 0x80, CHR 0x80),
        (CHR 0xE2, CHR 0x80, CHR 0x81), (CHR 0xE2, CHR 0x80, CHR 0x82),
        (CHR 0xE2, CHR 0x80, CHR 0x83), (CHR 0xE2, CHR 0x80, CHR 0x84),
        (CHR 0xE2, CHR 0x80, CHR 0x85), (CHR 0xE2, CHR 0x80, CHR 0x86),
        (CHR 0xE2, CHR 0x80, CHR 0x87), (CHR 0xE2, CHR 0x80, CHR 0x88),
        (CHR 0xE2, CHR 0x80, CHR 0x89), (CHR 0xE2, CHR 0x80, CHR 0x8A),
        (CHR 0xE2, CHR 0x80, CHR 0xA8), (CHR 0xE2, CHR 0x80, CHR 0xA9),
        (CHR 0xE2, CHR 0x80, CHR 0xAF), (CHR 0xE2, CHR 0x81, CHR 0x9F),
        (CHR 0xE3, CHR 0x80, CHR 0x80), (CHR 0xEF, CHR 0xBB, CHR 0xBF)])"

fun trim_start :: "string \<Rightarrow> string" where
  "trim_start (a # b # c # s) =
     (if ascii_space a then trim_start (b # c # s)
      else if space2 a b then trim_start (c # s)
      else if space3 a b c then trim_start s
      else a # b # c # s)"
| "trim_start [a, b] =
     (if ascii_space a then trim_start [b] else if space2 a b then [] else [a, b])"
| "trim_start [a] = (if ascii_space a then [] else [a])"
| "trim_start [] = []"

text \<open>The same from the end, on the reversed string: the bytes of a character come last first.\<close>

fun trim_start_rev :: "string \<Rightarrow> string" where
  "trim_start_rev (c # b # a # s) =
     (if ascii_space c then trim_start_rev (b # a # s)
      else if space2 b c then trim_start_rev (a # s)
      else if space3 a b c then trim_start_rev s
      else c # b # a # s)"
| "trim_start_rev [c, b] =
     (if ascii_space c then trim_start_rev [b] else if space2 b c then [] else [c, b])"
| "trim_start_rev [c] = (if ascii_space c then [] else [c])"
| "trim_start_rev [] = []"

definition trim :: "string \<Rightarrow> string" where
  "trim s = rev (trim_start_rev (rev (trim_start s)))"

text \<open>\<open>s.split("\n")\<close>: the pieces between line feeds; the empty string gives one empty piece.\<close>

fun split_lines :: "string \<Rightarrow> string list" where
  "split_lines [] = [[]]"
| "split_lines (c # cs) =
     (if c = newline then [] # split_lines cs
      else (case split_lines cs of [] \<Rightarrow> [[c]] | l # ls \<Rightarrow> (c # l) # ls))"

text \<open>
  \<open>for (const x of s)\<close> over a string yields its code points one by one: in UTF-8 a
  character is one byte that is not a continuation byte (\<open>0x80\<close> to \<open>0xBF\<close>), followed by
  its continuation bytes.
\<close>

definition continuation :: "char \<Rightarrow> bool" where
  "continuation c = (128 \<le> (of_char c :: nat) \<and> (of_char c :: nat) < 192)"

function code_points :: "string \<Rightarrow> string list" where
  "code_points [] = []"
| "code_points (c # cs) = (c # takeWhile continuation cs) # code_points (dropWhile continuation cs)"
  by pat_completeness auto
termination
  by (relation "measure length") (auto simp: less_Suc_eq_le length_dropWhile_le)

section \<open>JSON values and the operations of the runtime\<close>

text \<open>
  What \<open>JSON.parse\<close> returns. A number is held as the text JavaScript's \<open>ToString\<close> gives
  it (\<open>0\<close> and \<open>-0\<close> are both \<open>''0''\<close>): the program only tests a number for zero,
  compares it with other values and prints it. An object is the list of its members in
  the order of the text; of two members with one key the later one counts.
\<close>

datatype json =
    JNull
  | JBool bool
  | JNum string
  | JStr string
  | JArr "json list"
  | JObj "(string \<times> json) list"

datatype error = TypeError

text \<open>
  The two operations of the runtime that are taken as given: \<open>JSON.parse\<close> on a line
  (\<open>None\<close> when it throws) and whether the number a string converts to is greater than
  zero (what \<open>s > 0\<close> computes for a string \<open>s\<close>).
\<close>

record runtime =
  JSON_parse :: "string \<Rightarrow> json option"
  string_gt0 :: "string \<Rightarrow> bool"

definition and_then :: "error + 'a \<Rightarrow> ('a \<Rightarrow> error + 'b) \<Rightarrow> error + 'b" where
  "and_then m f = (case m of Inl e \<Rightarrow> Inl e | Inr x \<Rightarrow> f x)"

definition member :: "(string \<times> json) list \<Rightarrow> string \<Rightarrow> json option" where
  "member kvs k = map_of (rev kvs) k"

text \<open>
  \<open>v.k\<close> for the names \<open>type\<close>, \<open>data\<close>, \<open>items\<close>, \<open>trees\<close>, \<open>name\<close> and \<open>children\<close>, which
  no prototype defines: the member of an object, \<open>undefined\<close> (\<open>None\<close>) on any other value,
  a \<open>TypeError\<close> on \<open>null\<close>.
\<close>

fun field :: "json \<Rightarrow> string \<Rightarrow> error + json option" where
  "field JNull k = Inl TypeError"
| "field (JObj kvs) k = Inr (member kvs k)"
| "field v k = Inr None"

text \<open>\<open>v?.k\<close>: \<open>undefined\<close> when \<open>v\<close> is \<open>undefined\<close> or \<open>null\<close>.\<close>

fun opt_field :: "json option \<Rightarrow> string \<Rightarrow> json option" where
  "opt_field (Some (JObj kvs)) k = member kvs k"
| "opt_field v k = None"

fun truthy :: "json \<Rightarrow> bool" where
  "truthy JNull = False"
| "truthy (JBool b) = b"
| "truthy (JNum t) = (t \<noteq> ''0'')"
| "truthy (JStr s) = (s \<noteq> [])"
| "truthy (JArr xs) = True"
| "truthy (JObj kvs) = True"

text \<open>\<open>v || d\<close>, with \<open>v\<close> possibly \<open>undefined\<close>.\<close>

definition or_else :: "json option \<Rightarrow> json \<Rightarrow> json" where
  "or_else v d = (case v of None \<Rightarrow> d | Some x \<Rightarrow> if truthy x then x else d)"

definition is_object :: "json \<Rightarrow> bool" where
  "is_object v = (case v of JArr xs \<Rightarrow> True | JObj kvs \<Rightarrow> True | _ \<Rightarrow> False)"

text \<open>
  \<open>ToString\<close>, as a template literal and \<open>Array.prototype.join\<close> apply it. An array is the
  join of its elements with a comma, \<open>null\<close> elements giving the empty string. An object
  is \<open>[object Object]\<close>, unless it has a member \<open>toString\<close> of its own: that member is not
  callable, and the conversion throws a \<open>TypeError\<close>.
\<close>

fun to_string :: "json \<Rightarrow> error + string"
  and join :: "string \<Rightarrow> json list \<Rightarrow> error + string"
  and element :: "json \<Rightarrow> error + string" where
  "to_string JNull = Inr ''null''"
| "to_string (JBool b) = Inr (if b then ''true'' else ''false'')"
| "to_string (JNum t) = Inr t"
| "to_string (JStr s) = Inr s"
| "to_string (JArr xs) = join '','' xs"
| "to_string (JObj kvs) =
     (if member kvs ''toString'' \<noteq> None then Inl TypeError else Inr ''[object Object]'')"
| "join sep [] = Inr []"
| "join sep [x] = element x"
| "join sep (x # y # ys) =
     (case element x of Inl e \<Rightarrow> Inl e
      | Inr a \<Rightarrow> (case join sep (y # ys) of Inl e \<Rightarrow> Inl e | Inr b \<Rightarrow> Inr (a @ sep @ b)))"
| "element x = (if x = JNull then Inr [] else to_string x)"

text \<open>
  \<open>v > 0\<close> for a JSON value: \<open>null\<close> converts to 0 and \<open>true\<close> to 1, a positive number
  prints without a sign, an array converts through its string, an object to \<open>NaN\<close>.
\<close>

definition gt_zero :: "runtime \<Rightarrow> json \<Rightarrow> error + bool" where
  "gt_zero rt v =
     (case v of
        JNull \<Rightarrow> Inr False
      | JBool b \<Rightarrow> Inr b
      | JNum t \<Rightarrow> Inr (t \<noteq> ''0'' \<and> \<not> prefix ''-'' t)
      | JStr s \<Rightarrow> Inr (string_gt0 rt s)
      | JArr xs \<Rightarrow> and_then (to_string (JArr xs)) (\<lambda>s. Inr (string_gt0 rt s))
      | JObj kvs \<Rightarrow> and_then (to_string (JObj kvs)) (\<lambda>s. Inr False))"

text \<open>
  \<open>SameValueZero\<close>, the equality of \<open>Set\<close> and of \<open>Array.prototype.includes\<close>: primitives
  by value, arrays and objects by identity. Every array or object compared here comes
  from its own place in a parsed line, so two of them are never the same.
\<close>

fun same_value_zero :: "json \<Rightarrow> json \<Rightarrow> bool" where
  "same_value_zero JNull JNull = True"
| "same_value_zero (JBool a) (JBool b) = (a = b)"
| "same_value_zero (JNum a) (JNum b) = (a = b)"
| "same_value_zero (JStr a) (JStr b) = (a = b)"
| "same_value_zero a b = False"

text \<open>
  \<open>info.includes(pat)\<close> on whatever \<open>info\<close> is: the substring test on a string, the
  membership test on an array; no other value has a callable \<open>includes\<close>.
\<close>

fun includes_call :: "json \<Rightarrow> string \<Rightarrow> error + bool" where
  "includes_call (JStr s) pat = Inr (str_includes s pat)"
| "includes_call (JArr xs) pat = Inr (list_ex (same_value_zero (JStr pat)) xs)"
| "includes_call v pat = Inl TypeError"

text \<open>\<open>for (const x of v)\<close>: the elements of an array, the characters of a string.\<close>

fun iterate :: "json \<Rightarrow> error + json list" where
  "iterate (JArr xs) = Inr xs"
| "iterate (JStr s) = Inr (map JStr (code_points s))"
| "iterate v = Inl TypeError"

section \<open>The yarn package manager: \<open>src/helpers/yarn.ts\<close>\<close>

subsection \<open>\<open>extractVersionLines\<close>\<close>

text \<open>The three variables of the loop.\<close>

record seg_state =
  versionBlocks :: "json list list"
  currentBlock :: "json list"
  inVersionBlock :: bool

definition seg_init :: seg_state where
  "seg_init = \<lparr>versionBlocks = [], currentBlock = [], inVersionBlock = False\<rparr>"

text \<open>
  The body of \<open>if (data.type === "info")\<close>, on \<open>info = data.data || ""\<close>. Both calls of
  \<open>includes\<close> come before any assignment, so a \<open>TypeError\<close> leaves the state as it was.
\<close>

definition on_info :: "string \<Rightarrow> json \<Rightarrow> seg_state \<Rightarrow> error + seg_state" where
  "on_info version info st =
     and_then (includes_call info ''=> Found'') (\<lambda>found.
     and_then (if found then includes_call info (''@'' @ version) else Inr False) (\<lambda>matching.
       if found \<and> matching then
         Inr \<lparr>versionBlocks =
                (if currentBlock st \<noteq> [] then versionBlocks st @ [currentBlock st]
                 else versionBlocks st),
              currentBlock = [], inVersionBlock = True\<rparr>
       else if found then
         Inr \<lparr>versionBlocks =
                (if inVersionBlock st \<and> currentBlock st \<noteq> []
                 then versionBlocks st @ [currentBlock st] else versionBlocks st),
              currentBlock = [], inVersionBlock = False\<rparr>
       else Inr st))"

text \<open>
  One turn of \<open>for (const line of lines)\<close>. Whatever throws inside the \<open>try\<close> (the parse,
  \<open>data.type\<close> on \<open>null\<close>, \<open>includes\<close> on a value without it) is caught and the line skipped.
\<close>

definition line_step :: "runtime \<Rightarrow> string \<Rightarrow> seg_state \<Rightarrow> string \<Rightarrow> seg_state" where
  "line_step rt version st line =
     (case JSON_parse rt line of
        None \<Rightarrow> st
      | Some data \<Rightarrow>
          (case and_then (field data ''type'') (\<lambda>ty.
                  if ty = Some (JStr ''info'')
                  then and_then (field data ''data'') (\<lambda>d. on_info version (or_else d (JStr [])) st)
                  else Inr st) of
             Inl e \<Rightarrow> st
           | Inr st' \<Rightarrow>
               if inVersionBlock st' then st'\<lparr>currentBlock := currentBlock st' @ [data]\<rparr>
               else st'))"

text \<open>The blocks when the loop and the flush after it are done, and their concatenation.\<close>

definition flushed_blocks :: "runtime \<Rightarrow> string list \<Rightarrow> string \<Rightarrow> json list list" where
  "flushed_blocks rt lines version =
     (let st = foldl (line_step rt version) seg_init lines
      in if inVersionBlock st \<and> currentBlock st \<noteq> []
         then versionBlocks st @ [currentBlock st] else versionBlocks st)"

definition extractVersionLines :: "runtime \<Rightarrow> string list \<Rightarrow> string \<Rightarrow> json list" where
  "extractVersionLines rt lines version = concat (flushed_blocks rt lines version)"

subsection \<open>\<open>extractChainFromTree\<close>\<close>

text \<open>
  The separator of the template literal, as the source file has it: a space, the three
  characters U+00E2, U+2020 and U+2019, a space.
\<close>

definition arrow_separator :: string where
  "arrow_separator =
     [CHR 0x20, CHR 0xC3, CHR 0xA2, CHR 0xE2, CHR 0x80, CHR 0xA0, CHR 0xE2, CHR 0x80, CHR 0x99,
      CHR 0x20]"

text \<open>\<open>parentChain ? `${parentChain} ... ${name}` : name\<close> with \<open>name = tree.name || ""\<close>.\<close>

definition node_name :: "json \<Rightarrow> json" where
  "node_name tree = or_else (opt_field (Some tree) ''name'') (JStr [])"

definition current_chain :: "json \<Rightarrow> json \<Rightarrow> error + json" where
  "current_chain tree parentChain =
     (if truthy parentChain
      then and_then (to_string parentChain) (\<lambda>p.
           and_then (to_string (node_name tree)) (\<lambda>n. Inr (JStr (p @ arrow_separator @ n))))
      else Inr (node_name tree))"

text \<open>
  \<open>tree.children && tree.children.length > 0\<close>: the length of an array or of a string,
  the member \<open>length\<close> of an object; a number or a boolean has none.
\<close>

definition has_children :: "runtime \<Rightarrow> json \<Rightarrow> error + bool" where
  "has_children rt tree =
     (case opt_field (Some tree) ''children'' of
        None \<Rightarrow> Inr False
      | Some ch \<Rightarrow>
          if \<not> truthy ch then Inr False
          else (case ch of
                  JArr xs \<Rightarrow> Inr (xs \<noteq> [])
                | JStr s \<Rightarrow> Inr (s \<noteq> [])
                | JObj kvs \<Rightarrow>
                    (case member kvs ''length'' of None \<Rightarrow> Inr False | Some n \<Rightarrow> gt_zero rt n)
                | _ \<Rightarrow> Inr False))"

text \<open>
  \<open>tree.children[0]\<close>: the first element of an array, the first character of a string
  (a string whatever it is), the member \<open>0\<close> of an object.
\<close>

definition first_child :: "json \<Rightarrow> json option" where
  "first_child tree =
     (case opt_field (Some tree) ''children'' of
        Some (JArr xs) \<Rightarrow> (case xs of [] \<Rightarrow> None | x # rest \<Rightarrow> Some x)
      | Some (JStr s) \<Rightarrow> (case code_points s of [] \<Rightarrow> None | c # rest \<Rightarrow> Some (JStr c))
      | Some (JObj kvs) \<Rightarrow> member kvs ''0''
      | _ \<Rightarrow> None)"

text \<open>
  The walk. The tree may be \<open>undefined\<close> (\<open>None\<close>); the result is \<open>null\<close> (\<open>None\<close>) or the chain,
  which is the node's own \<open>name\<close> value, not always a string, when no parent chain is there.
\<close>

function extractChainFromTree :: "runtime \<Rightarrow> json option \<Rightarrow> json \<Rightarrow> error + json option" where
  "extractChainFromTree rt tree parentChain =
     (case tree of
        None \<Rightarrow> Inr None
      | Some t \<Rightarrow>
          if \<not> truthy t \<or> \<not> is_object t then Inr None
          else (case current_chain t parentChain of
                  Inl e \<Rightarrow> Inl e
                | Inr currentChain \<Rightarrow>
                    (case has_children rt t of
                       Inl e \<Rightarrow> Inl e
                     | Inr b \<Rightarrow>
                         if b then extractChainFromTree rt (first_child t) currentChain
                         else Inr (Some currentChain))))"
  by pat_completeness auto
termination
proof -
  have mem: "size v < size (JObj kvs)" if "member kvs k = Some v" for kvs k v
  proof -
    from that have "(k, v) \<in> set kvs"
      unfolding member_def by (auto dest: map_of_SomeD)
    then have "size_prod (\<lambda>x. 0) size (k, v) \<le> size_list (size_prod (\<lambda>x. 0) size) kvs"
      by (rule size_list_estimation') simp
    then show ?thesis by simp
  qed
  have key: "(case first_child t of None \<Rightarrow> 0 | Some v \<Rightarrow> Suc (size v)) < Suc (size t)" for t
  proof (cases t)
    case (JObj kvs)
    show ?thesis
    proof (cases "member kvs ''children''")
      case None
      with JObj show ?thesis by (simp add: first_child_def)
    next
      case (Some ch)
      have ch: "size ch < size t" using mem [OF Some] JObj by simp
      show ?thesis
      proof (cases ch)
        case (JArr xs)
        then show ?thesis using \<open>t = JObj kvs\<close> Some ch
          by (cases xs) (auto simp: first_child_def)
      next
        case inner: (JObj cs)
        show ?thesis
        proof (cases "member cs ''0''")
          case None
          then show ?thesis using JObj Some inner by (simp add: first_child_def)
        next
          case c: (Some c)
          from mem [OF c] ch inner have "size c < size t" by simp
          then show ?thesis using JObj Some inner c by (simp add: first_child_def)
        qed
      next
        case (JStr s)
        then show ?thesis using JObj Some
          by (auto simp: first_child_def split: list.splits)
      qed (use JObj Some in \<open>simp_all add: first_child_def\<close>)
    qed
  qed (simp_all add: first_child_def)
  show ?thesis
    by (relation "measure (\<lambda>(rt, tree, p). case tree of None \<Rightarrow> 0 | Some v \<Rightarrow> Suc (size v))")
      (use key in auto)
qed

declare extractChainFromTree.simps [simp del]

subsection \<open>\<open>extractDependencyChains\<close>\<close>

text \<open>
  The guard that the list-of-reasons and the info-text branches share, and the push
  behind it: \<open>chain && !(chain.includes("workspace aggregator") ||
  chain.includes("workspace-aggregator"))\<close>.
\<close>

definition keep_chain :: "string \<Rightarrow> bool" where
  "keep_chain chain =
     (chain \<noteq> [] \<and>
      \<not> (str_includes chain ''workspace aggregator'' \<or> str_includes chain ''workspace-aggregator''))"

definition push_if_kept :: "json list \<Rightarrow> string \<Rightarrow> json list" where
  "push_if_kept chs chain = (if keep_chain chain then chs @ [JStr chain] else chs)"

text \<open>\<open>for (const item of items)\<close>: \<open>item.replace\<close> exists on a string only.\<close>

fun reasons_loop :: "json list \<Rightarrow> json list \<Rightarrow> error + json list" where
  "reasons_loop chs [] = Inr chs"
| "reasons_loop chs (item # items) =
     (case item of
        JStr s \<Rightarrow>
          reasons_loop
            (push_if_kept chs
               (replace_first ''_project_#'' (strip_trailing_quote (strip_leading_quote s))))
            items
      | _ \<Rightarrow> Inl TypeError)"

text \<open>\<open>for (const tree of trees)\<close>: a chain is pushed when it is truthy.\<close>

fun trees_loop :: "runtime \<Rightarrow> json list \<Rightarrow> json list \<Rightarrow> error + json list" where
  "trees_loop rt chs [] = Inr chs"
| "trees_loop rt chs (tree # trees) =
     (case extractChainFromTree rt (Some tree) (JStr []) of
        Inl e \<Rightarrow> Inl e
      | Inr chain \<Rightarrow>
          trees_loop rt
            (case chain of None \<Rightarrow> chs | Some c \<Rightarrow> if truthy c then chs @ [c] else chs)
            trees)"

text \<open>\<open>m && m[1]\<close> for the result of \<open>match\<close>: the group when there is a match and it is not empty.\<close>

definition group1 :: "string option \<Rightarrow> string option" where
  "group1 m = (case m of None \<Rightarrow> None | Some g \<Rightarrow> if g \<noteq> [] then Some g else None)"

text \<open>The info branch on \<open>info = data.data || ""\<close>: \<open>info.match\<close> exists on a string only.\<close>

definition info_step :: "json list \<Rightarrow> json \<Rightarrow> error + json list" where
  "info_step chs info =
     (case info of
        JStr s \<Rightarrow>
          (case group1 (match_depends s) of
             Some g \<Rightarrow> Inr (push_if_kept chs (replace_first ''_project_#'' g))
           | None \<Rightarrow>
               (case group1 (match_exists s) of
                  Some g \<Rightarrow> Inr (push_if_kept chs (replace_first ''_project_#'' g))
                | None \<Rightarrow> Inr chs))
      | _ \<Rightarrow> Inl TypeError)"

text \<open>One turn of \<open>for (const data of versionLines)\<close>.\<close>

definition record_step :: "runtime \<Rightarrow> json list \<Rightarrow> json \<Rightarrow> error + json list" where
  "record_step rt chs data =
     and_then (field data ''type'') (\<lambda>dataType.
       let d = opt_field (Some data) ''data'' in
       if dataType = Some (JStr ''list'') \<and> opt_field d ''type'' = Some (JStr ''reasons'')
       then and_then (iterate (or_else (opt_field d ''items'') (JArr []))) (reasons_loop chs)
       else if dataType = Some (JStr ''tree'')
       then and_then (iterate (or_else (opt_field d ''trees'') (JArr []))) (trees_loop rt chs)
       else if dataType = Some (JStr ''info'') then info_step chs (or_else d (JStr []))
       else Inr chs)"

fun chains_loop :: "runtime \<Rightarrow> json list \<Rightarrow> json list \<Rightarrow> error + json list" where
  "chains_loop rt chs [] = Inr chs"
| "chains_loop rt chs (data # versionLines) =
     (case record_step rt chs data of
        Inl e \<Rightarrow> Inl e
      | Inr chs' \<Rightarrow> chains_loop rt chs' versionLines)"

text \<open>
  The loop under \<open>// Remove duplicates\<close>: \<open>seen\<close> is the set, held as the list of what was
  added to it; \<open>seen.has\<close> compares with \<open>SameValueZero\<close>.
\<close>

fun dedupe :: "json list \<Rightarrow> json list \<Rightarrow> json list \<Rightarrow> json list" where
  "dedupe seen uniqueChains [] = uniqueChains"
| "dedupe seen uniqueChains (chain # chs) =
     (if list_ex (same_value_zero chain) seen then dedupe seen uniqueChains chs
      else dedupe (seen @ [chain]) (uniqueChains @ [chain]) chs)"

definition extractDependencyChains :: "runtime \<Rightarrow> json list \<Rightarrow> error + json list" where
  "extractDependencyChains rt versionLines =
     and_then (chains_loop rt [] versionLines) (\<lambda>chs. Inr (dedupe [] [] chs))"

subsection \<open>\<open>parseYarnWhyOutput\<close> and \<open>getDependencyChain\<close>\<close>

definition unable_to_parse :: string where
  "unable_to_parse = ''Unable to parse yarn output''"

definition unable_to_determine :: string where
  "unable_to_determine = ''Unable to determine dependency chain''"

definition parseYarnWhyOutput :: "runtime \<Rightarrow> string \<Rightarrow> string \<Rightarrow> error + string" where
  "parseYarnWhyOutput rt output version =
     (let lines = split_lines (trim output);
          versionLines = extractVersionLines rt lines version
      in and_then (extractDependencyChains rt versionLines) (\<lambda>dependencyChains.
           if length dependencyChains > 0 then join '' | '' (take 5 dependencyChains)
           else Inr unable_to_parse))"

text \<open>
  What \<open>spawnSync\<close> did: it threw, or it returned a result whose \<open>stdout\<close> is \<open>null\<close> or a
  string. The \<open>catch\<close> of \<open>getDependencyChain\<close> also takes whatever the parsing throws.
\<close>

datatype spawn_result = SpawnThrows | SpawnReturns "string option"

definition getDependencyChain :: "runtime \<Rightarrow> spawn_result \<Rightarrow> string \<Rightarrow> string" where
  "getDependencyChain rt result version =
     (case result of
        SpawnThrows \<Rightarrow> unable_to_determine
      | SpawnReturns None \<Rightarrow> unable_to_determine
      | SpawnReturns (Some stdout) \<Rightarrow>
          if stdout \<noteq> [] then
            (case parseYarnWhyOutput rt stdout version of
               Inl e \<Rightarrow> unable_to_determine
             | Inr chain \<Rightarrow> chain)
          else unable_to_determine)"


section \<open>What the specification says, and the transcripts of its scenarios\<close>

subsection \<open>The segmenter as a two-state filter\<close>

text \<open>
  What a parsed record is to the segmenter: the marker of the target version, the marker
  of another version, a record that throws inside the \<open>try\<close> and is skipped, or any other
  record.
\<close>

datatype kind = Skipped | Matching | Other | Plain

definition kind_of :: "string \<Rightarrow> json \<Rightarrow> kind" where
  "kind_of version data =
     (case field data ''type'' of
        Inl e \<Rightarrow> Skipped
      | Inr ty \<Rightarrow>
          if ty \<noteq> Some (JStr ''info'') then Plain
          else (case includes_call (or_else (opt_field (Some data) ''data'') (JStr [])) ''=> Found'' of
                  Inl e \<Rightarrow> Skipped
                | Inr found \<Rightarrow>
                    if \<not> found then Plain
                    else if includes_call (or_else (opt_field (Some data) ''data'') (JStr []))
                              (''@'' @ version) = Inr True
                    then Matching else Other))"

text \<open>
  The state after a record: the marker of the target version gives Inside, the marker of
  another version Outside, any other record leaves the state as it is.
\<close>

definition next_inside :: "string \<Rightarrow> bool \<Rightarrow> json \<Rightarrow> bool" where
  "next_inside version inside data =
     (case kind_of version data of Matching \<Rightarrow> True | Other \<Rightarrow> False | _ \<Rightarrow> inside)"

text \<open>
  The records kept, with \<open>inside\<close> the state before the first line: a line that does not
  parse, or whose record is skipped, counts for nothing; any other record is kept when
  the state is Inside after its own transition.
\<close>

fun retained :: "runtime \<Rightarrow> string \<Rightarrow> bool \<Rightarrow> string list \<Rightarrow> json list" where
  "retained rt version inside [] = []"
| "retained rt version inside (line # lines) =
     (case JSON_parse rt line of
        None \<Rightarrow> retained rt version inside lines
      | Some data \<Rightarrow>
          if kind_of version data = Skipped then retained rt version inside lines
          else (if next_inside version inside data then [data] else []) @
               retained rt version (next_inside version inside data) lines)"

text \<open>The state after a run of lines.\<close>

fun inside_after :: "runtime \<Rightarrow> string \<Rightarrow> bool \<Rightarrow> string list \<Rightarrow> bool" where
  "inside_after rt version inside [] = inside"
| "inside_after rt version inside (line # lines) =
     inside_after rt version
       (case JSON_parse rt line of
          None \<Rightarrow> inside
        | Some data \<Rightarrow> next_inside version inside data)
       lines"

text \<open>
  A block of the target version: its marker first, then records that are no markers.
\<close>

definition version_block :: "string \<Rightarrow> json list \<Rightarrow> bool" where
  "version_block version b =
     (case b of
        [] \<Rightarrow> False
      | m # rest \<Rightarrow>
          kind_of version m = Matching \<and> list_all (\<lambda>d. kind_of version d = Plain) rest)"

text \<open>
  The records the loop of \<open>extractVersionLines\<close> holds at some point, finished blocks first,
  and the property its state keeps: the finished blocks are blocks of the target
  version, and so is the current one inside a block; outside, nothing is accumulated.
\<close>

definition seg_flat :: "seg_state \<Rightarrow> json list" where
  "seg_flat st = concat (versionBlocks st) @ currentBlock st"

definition seg_ok :: "string \<Rightarrow> seg_state \<Rightarrow> bool" where
  "seg_ok version st =
     (list_all (version_block version) (versionBlocks st) \<and>
      (if inVersionBlock st then version_block version (currentBlock st)
       else currentBlock st = []))"

subsection \<open>Deduplication in first-seen order\<close>

text \<open>The entries of a list that no earlier entry equals, in the order of the list.\<close>

definition first_occurrences :: "json list \<Rightarrow> json list" where
  "first_occurrences xs =
     map (nth xs)
       (filter (\<lambda>i. \<not> list_ex (same_value_zero (xs ! i)) (take i xs)) [0..<length xs])"

text \<open>The same, with \<open>u\<close> counted as seen before the list starts.\<close>

definition news :: "json list \<Rightarrow> json list \<Rightarrow> json list" where
  "news u xs =
     map (nth xs)
       (filter (\<lambda>i. \<not> list_ex (same_value_zero (xs ! i)) (u @ take i xs)) [0..<length xs])"

subsection \<open>Joining strings\<close>

text \<open>The strings of a list with the separator between each two of them.\<close>

fun joined :: "string \<Rightarrow> string list \<Rightarrow> string" where
  "joined sep [] = []"
| "joined sep [x] = x"
| "joined sep (x # y # ys) = x @ sep @ joined sep (y # ys)"

subsection \<open>The extractor with the first pattern only\<close>

text \<open>\<open>extractDependencyChains\<close> with the \<open>else if (existsMatch ...)\<close> branch deleted.\<close>

definition info_step_one_pattern :: "json list \<Rightarrow> json \<Rightarrow> error + json list" where
  "info_step_one_pattern chs info =
     (case info of
        JStr s \<Rightarrow>
          (case group1 (match_depends s) of
             Some g \<Rightarrow> Inr (push_if_kept chs (replace_first ''_project_#'' g))
           | None \<Rightarrow> Inr chs)
      | _ \<Rightarrow> Inl TypeError)"

definition record_step_one_pattern :: "runtime \<Rightarrow> json list \<Rightarrow> json \<Rightarrow> error + json list" where
  "record_step_one_pattern rt chs data =
     and_then (field data ''type'') (\<lambda>dataType.
       let d = opt_field (Some data) ''data'' in
       if dataType = Some (JStr ''list'') \<and> opt_field d ''type'' = Some (JStr ''reasons'')
       then and_then (iterate (or_else (opt_field d ''items'') (JArr []))) (reasons_loop chs)
       else if dataType = Some (JStr ''tree'')
       then and_then (iterate (or_else (opt_field d ''trees'') (JArr []))) (trees_loop rt chs)
       else if dataType = Some (JStr ''info'')
       then info_step_one_pattern chs (or_else d (JStr []))
       else Inr chs)"

fun chains_loop_one_pattern :: "runtime \<Rightarrow> json list \<Rightarrow> json list \<Rightarrow> error + json list" where
  "chains_loop_one_pattern rt chs [] = Inr chs"
| "chains_loop_one_pattern rt chs (data # versionLines) =
     (case record_step_one_pattern rt chs data of
        Inl e \<Rightarrow> Inl e
      | Inr chs' \<Rightarrow> chains_loop_one_pattern rt chs' versionLines)"

definition extractDependencyChains_one_pattern :: "runtime \<Rightarrow> json list \<Rightarrow> error + json list" where
  "extractDependencyChains_one_pattern rt versionLines =
     and_then (chains_loop_one_pattern rt [] versionLines) (\<lambda>chs. Inr (dedupe [] [] chs))"

subsection \<open>Where a chain comes from\<close>

text \<open>
  The candidates of a record: of a \<open>list\<close> record of sub-kind \<open>reasons\<close>, each string item
  without one leading and one trailing quote; of an \<open>info\<close> record, what the pattern
  \<open>"X" depends on it\<close> captures in its message. And the chains the tree walk returns for
  the roots of a \<open>tree\<close> record.
\<close>

definition reason_candidate :: "json \<Rightarrow> string \<Rightarrow> bool" where
  "reason_candidate d x =
     (field d ''type'' = Inr (Some (JStr ''list'')) \<and>
      opt_field (opt_field (Some d) ''data'') ''type'' = Some (JStr ''reasons'') \<and>
      (case iterate (or_else (opt_field (opt_field (Some d) ''data'') ''items'') (JArr [])) of
         Inl e \<Rightarrow> False
       | Inr items \<Rightarrow>
           list_ex (\<lambda>item. case item of
                      JStr s \<Rightarrow> x = strip_trailing_quote (strip_leading_quote s)
                    | _ \<Rightarrow> False) items))"

definition info_candidate :: "json \<Rightarrow> string \<Rightarrow> bool" where
  "info_candidate d x =
     (field d ''type'' = Inr (Some (JStr ''info'')) \<and>
      (case or_else (opt_field (Some d) ''data'') (JStr []) of
         JStr s \<Rightarrow> match_depends s = Some x
       | _ \<Rightarrow> False))"

definition tree_chain :: "runtime \<Rightarrow> json \<Rightarrow> json \<Rightarrow> bool" where
  "tree_chain rt d c =
     (field d ''type'' = Inr (Some (JStr ''tree'')) \<and>
      (case iterate (or_else (opt_field (opt_field (Some d) ''data'') ''trees'') (JArr [])) of
         Inl e \<Rightarrow> False
       | Inr trees \<Rightarrow>
           list_ex (\<lambda>t. extractChainFromTree rt (Some t) (JStr []) = Inr (Some c)) trees))"

subsection \<open>The calls of the tree walk\<close>

text \<open>
  \<open>calls rt tree p tree' p'\<close>: the walk started as \<open>extractChainFromTree(tree, p)\<close> arrives
  at the call \<open>extractChainFromTree(tree', p')\<close>.
\<close>

inductive calls :: "runtime \<Rightarrow> json option \<Rightarrow> json \<Rightarrow> json option \<Rightarrow> json \<Rightarrow> bool"
  for rt :: runtime and tree :: "json option" and p :: json where
  start: "calls rt tree p tree p"
| descend: "calls rt tree p (Some t) q \<Longrightarrow> truthy t \<Longrightarrow> is_object t \<Longrightarrow>
     current_chain t q = Inr c \<Longrightarrow> has_children rt t = Inr True \<Longrightarrow>
     calls rt tree p (first_child t) c"

subsection \<open>Well-formed trees\<close>

text \<open>
  A node as the specification describes it, a name and the sequence of its children, the
  JSON value that stands for it, and the names met when going down by the first child.
\<close>

datatype node = Node string "node list"

fun node_json :: "node \<Rightarrow> json" where
  "node_json (Node name children) =
     JObj [(''name'', JStr name), (''children'', JArr (map node_json children))]"

fun spine :: "node \<Rightarrow> string list" where
  "spine (Node name []) = [name]"
| "spine (Node name (child # children)) = name # spine child"

subsection \<open>Transcripts\<close>

text \<open>The separator the tests expect: a space, U+2192, a space.\<close>

definition unicode_arrow :: string where
  "unicode_arrow = [CHR 0x20, CHR 0xE2, CHR 0x86, CHR 0x92, CHR 0x20]"

text \<open>The three kinds of record, as \<open>JSON.parse\<close> returns them for a line of yarn.\<close>

definition info_record :: "string \<Rightarrow> json" where
  "info_record msg = JObj [(''type'', JStr ''info''), (''data'', JStr msg)]"

definition reasons_record :: "json list \<Rightarrow> json" where
  "reasons_record items =
     JObj [(''type'', JStr ''list''),
           (''data'', JObj [(''type'', JStr ''reasons''), (''items'', JArr items)])]"

definition tree_record :: "json list \<Rightarrow> json" where
  "tree_record trees = JObj [(''type'', JStr ''tree''), (''data'', JObj [(''trees'', JArr trees)])]"

text \<open>
  The lines of the transcripts used below, from the scenarios of the specification and
  the tests of the repository, and the values of the longer ones.
\<close>

definition marker_line :: string where
  \<open>marker_line = ''{"type":"info","data":"=> Found package-a@1.0.0"}''\<close>

definition other_marker_line :: string where
  \<open>other_marker_line = ''{"type":"info","data":"=> Found package-a@2.0.0"}''\<close>

definition reasons_line :: string where
  \<open>reasons_line =
     ''{"type":"list","data":{"type":"reasons","items":["_project_#package-a","package-b#package-a"]}}''\<close>

definition tree_line :: string where
  \<open>tree_line =
     ''{"type":"tree","data":{"trees":[{"name":"root","children":[{"name":"package-b","children":[{"name":"package-a@1.0.0"}]}]}]}}''\<close>

definition seven_line :: string where
  \<open>seven_line =
     ''{"type":"list","data":{"type":"reasons","items":["chain1","chain2","chain3","chain4","chain5","chain6","chain7"]}}''\<close>

definition number_item_line :: string where
  \<open>number_item_line = ''{"type":"list","data":{"type":"reasons","items":[1]}}''\<close>

definition project_tree_line :: string where
  \<open>project_tree_line = ''{"type":"tree","data":{"trees":[{"name":"_project_#app"}]}}''\<close>

definition twice_line :: string where
  \<open>twice_line = ''{"type":"list","data":{"type":"reasons","items":["_project_#_project_#app"]}}''\<close>

definition found_706_line :: string where
  \<open>found_706_line = ''{"type":"info","data":"=> Found cross-spawn@7.0.6"}''\<close>

definition execa_line :: string where
  \<open>execa_line = ''{"type":"list","data":{"type":"reasons","items":["execa#cross-spawn"]}}''\<close>

definition aggregator_line :: string where
  \<open>aggregator_line =
     ''{"type":"list","data":{"type":"reasons","items":["workspace aggregator of package-a","project#package-a"]}}''\<close>

definition valid_chain_line :: string where
  \<open>valid_chain_line = ''{"type":"list","data":{"type":"reasons","items":["valid-chain"]}}''\<close>

definition done_line :: string where
  \<open>done_line = ''{"type":"info","data":"Done"}''\<close>

definition null_tree_line :: string where
  \<open>null_tree_line = ''{"type":"tree","data":{"trees":[null,{"name":"valid-package"}]}}''\<close>

definition unknown_line :: string where
  \<open>unknown_line = ''{"type":"unknown","data":"something"}''\<close>

definition scoped_706_line :: string where
  \<open>scoped_706_line = ''{"type":"info","data":"=> Found @0.6/tools#cross-spawn@7.0.6"}''\<close>

definition null_child_line :: string where
  \<open>null_child_line =
     ''{"type":"tree","data":{"trees":[{"name":"root","children":[{"name":"mid","children":[null]}]}]}}''\<close>

definition second_line :: string where
  \<open>second_line = ''{"type":"list","data":{"type":"reasons","items":["version-2.0.0"]}}''\<close>

definition tree_value :: json where
  "tree_value =
     tree_record
       [JObj [(''name'', JStr ''root''),
              (''children'',
               JArr [JObj [(''name'', JStr ''package-b''),
                           (''children'', JArr [JObj [(''name'', JStr ''package-a@1.0.0'')]])]])]]"

definition null_child_mid :: json where
  "null_child_mid = JObj [(''name'', JStr ''mid''), (''children'', JArr [JNull])]"

definition null_child_root :: json where
  "null_child_root = JObj [(''name'', JStr ''root''), (''children'', JArr [null_child_mid])]"

definition seven_items :: "json list" where
  "seven_items =
     [JStr ''chain1'', JStr ''chain2'', JStr ''chain3'', JStr ''chain4'', JStr ''chain5'',
      JStr ''chain6'', JStr ''chain7'']"

text \<open>
  A runtime whose \<open>JSON.parse\<close> knows the lines above and throws on any other line. No
  transcript here has an object for \<open>children\<close>, so the comparison of a string with zero
  is never asked for.
\<close>

definition scenario_runtime :: runtime where
  "scenario_runtime =
     \<lparr>JSON_parse = map_of
        [(marker_line, info_record ''=> Found package-a@1.0.0''),
         (other_marker_line, info_record ''=> Found package-a@2.0.0''),
         (reasons_line, reasons_record [JStr ''_project_#package-a'', JStr ''package-b#package-a'']),
         (tree_line, tree_value),
         (seven_line, reasons_record seven_items),
         (number_item_line, reasons_record [JNum ''1'']),
         (project_tree_line, tree_record [JObj [(''name'', JStr ''_project_#app'')]]),
         (twice_line, reasons_record [JStr ''_project_#_project_#app'']),
         (found_706_line, info_record ''=> Found cross-spawn@7.0.6''),
         (execa_line, reasons_record [JStr ''execa#cross-spawn'']),
         (scoped_706_line, info_record ''=> Found @0.6/tools#cross-spawn@7.0.6''),
         (null_child_line, tree_record [null_child_root]),
         (aggregator_line,
          reasons_record [JStr ''workspace aggregator of package-a'', JStr ''project#package-a'']),
         (valid_chain_line, reasons_record [JStr ''valid-chain'']),
         (done_line, info_record ''Done''),
         (null_tree_line, tree_record [JNull, JObj [(''name'', JStr ''valid-package'')]]),
         (unknown_line, JObj [(''type'', JStr ''unknown''), (''data'', JStr ''something'')]),
         (second_line, reasons_record [JStr ''version-2.0.0''])],
      string_gt0 = (\<lambda>s. False)\<rparr>"


section \<open>Shared lemmas\<close>

lemma and_then_simps [simp]:
  "and_then (Inl e) f = Inl e" "and_then (Inr x) f = f x"
  by (simp_all add: and_then_def)

lemma and_then_Inr_iff: "and_then m f = Inr y \<longleftrightarrow> (\<exists>x. m = Inr x \<and> f x = Inr y)"
  by (cases m) auto

lemma str_includes_iff: "str_includes s p \<longleftrightarrow> (\<exists>a b. s = a @ p @ b)"
proof (induction s)
  case Nil
  then show ?case by auto
next
  case (Cons c cs)
  show ?case
  proof
    assume "str_includes (c # cs) p"
    then consider "prefix p (c # cs)" | "str_includes cs p" by auto
    then show "\<exists>a b. c # cs = a @ p @ b"
    proof cases
      case 1
      then obtain b where "c # cs = p @ b" by (auto simp: prefix_def)
      then have "c # cs = [] @ p @ b" by simp
      then show ?thesis by blast
    next
      case 2
      with Cons obtain a b where "cs = a @ p @ b" by auto
      then have "c # cs = (c # a) @ p @ b" by simp
      then show ?thesis by blast
    qed
  next
    assume "\<exists>a b. c # cs = a @ p @ b"
    then obtain a b where ab: "c # cs = a @ p @ b" by auto
    show "str_includes (c # cs) p"
    proof (cases a)
      case Nil
      with ab have "prefix p (c # cs)" by (metis append_Nil prefixI)
      then show ?thesis by simp
    next
      case (Cons x a')
      with ab have "cs = a' @ p @ b" by simp
      with Cons.IH show ?thesis by auto
    qed
  qed
qed

subsection \<open>The deduplication loop\<close>

lemma svz_sym: "same_value_zero a b = same_value_zero b a"
  by (cases a; cases b) auto

lemma svz_trans: "same_value_zero a b \<Longrightarrow> same_value_zero b c \<Longrightarrow> same_value_zero a c"
  by (cases a; cases b; cases c) auto

lemma news_Cons:
  "news u (x # xs) =
     (if list_ex (same_value_zero x) u then [] else [x]) @
     map (nth xs)
       (filter (\<lambda>i. \<not> list_ex (same_value_zero (xs ! i)) (u @ x # take i xs)) [0..<length xs])"
proof -
  have upt: "[0..<length (x # xs)] = 0 # map Suc [0..<length xs]"
    by (simp add: upt_conv_Cons map_Suc_upt del: upt_Suc)
  show ?thesis
    by (simp only: news_def upt) (simp add: filter_map comp_def del: upt_Suc)
qed

lemma dedupe_news: "dedupe u u xs = u @ news u xs"
proof (induction xs arbitrary: u)
  case Nil
  then show ?case by (simp add: news_def)
next
  case (Cons x xs)
  show ?case
  proof (cases "list_ex (same_value_zero x) u")
    case True
    then obtain y where y: "y \<in> set u" "same_value_zero x y" by (auto simp: list_ex_iff)
    have "filter (\<lambda>i. \<not> list_ex (same_value_zero (xs ! i)) (u @ x # take i xs)) [0..<length xs]
        = filter (\<lambda>i. \<not> list_ex (same_value_zero (xs ! i)) (u @ take i xs)) [0..<length xs]"
      by (rule filter_cong) (use y in \<open>auto simp: list_ex_iff dest: svz_trans\<close>)
    then have "news u (x # xs) = news u xs"
      using True news_Cons [of u x xs] by (simp add: news_def [of u xs])
    with True Cons.IH [of u] show ?thesis by simp
  next
    case False
    have "news u (x # xs) = x # news (u @ [x]) xs"
      using False news_Cons [of u x xs] by (simp add: news_def [of "u @ [x]" xs])
    with False Cons.IH [of "u @ [x]"] show ?thesis by simp
  qed
qed

lemma dedupe_first_occurrences: "dedupe [] [] xs = first_occurrences xs"
  using dedupe_news [of "[]" xs] by (simp add: news_def first_occurrences_def)

lemma first_occurrences_subset: "set (first_occurrences xs) \<subseteq> set xs"
  by (auto simp: first_occurrences_def)

lemma first_occurrences_pairwise:
  assumes "i < j" and "j < length (first_occurrences xs)"
  shows "\<not> same_value_zero (first_occurrences xs ! i) (first_occurrences xs ! j)"
proof -
  define P where "P = (\<lambda>k. \<not> list_ex (same_value_zero (xs ! k)) (take k xs))"
  define ks where "ks = filter P [0..<length xs]"
  have fo: "first_occurrences xs = map (nth xs) ks"
    by (simp add: first_occurrences_def ks_def P_def)
  have len: "j < length ks" "i < length ks" using assms fo by auto
  have "sorted_wrt (<) ks" unfolding ks_def by (rule sorted_wrt_filter) simp
  then have lt: "ks ! i < ks ! j"
    using assms(1) len(1) by (rule sorted_wrt_nth_less)
  have "ks ! j \<in> set ks" using len by simp
  then have Pj: "P (ks ! j)" and bound: "ks ! j < length xs" by (auto simp: ks_def)
  have "xs ! (ks ! i) \<in> set (take (ks ! j) xs)"
    using lt bound by (auto simp: in_set_conv_nth intro!: exI [of _ "ks ! i"])
  with Pj have "\<not> same_value_zero (xs ! (ks ! j)) (xs ! (ks ! i))"
    by (auto simp: P_def list_ex_iff)
  then show ?thesis using len by (simp add: fo svz_sym)
qed


subsection \<open>The two patterns\<close>

lemma group_at_nonempty: "group_at cs = Some g \<Longrightarrow> g \<noteq> []"
  by (auto simp: group_at_def split: if_splits)

lemma match_depends_nonempty: "match_depends s = Some g \<Longrightarrow> g \<noteq> []"
  by (induction s) (auto split: if_splits dest: group_at_nonempty)

lemma match_exists_nonempty: "match_exists s = Some g \<Longrightarrow> g \<noteq> []"
  by (induction s) (auto split: if_splits dest: group_at_nonempty simp del: prefix_code)

lemma group1_match_depends: "group1 (match_depends s) = match_depends s"
  by (cases "match_depends s") (auto simp: group1_def dest: match_depends_nonempty)

lemma group1_match_exists: "group1 (match_exists s) = match_exists s"
  by (cases "match_exists s") (auto simp: group1_def dest: match_exists_nonempty)

lemma match_depends_later:
  "group_at rest \<noteq> None \<Longrightarrow> match_depends (a @ quote # rest) \<noteq> None"
  by (induction a) auto

lemma match_depends_Cons: "match_depends cs \<noteq> None \<Longrightarrow> match_depends (c # cs) \<noteq> None"
  by auto

lemma exists_head_quote: \<open>exists_head = ''exists because '' @ [quote]\<close>
  by (simp add: exists_head_def quote_def)

lemma exists_implies_depends: "match_exists s \<noteq> None \<Longrightarrow> match_depends s \<noteq> None"
proof (induction s)
  case Nil
  then show ?case by simp
next
  case (Cons c cs)
  show ?case
  proof (cases "prefix exists_head (c # cs) \<and>
      group_at (drop (length exists_head) (c # cs)) \<noteq> None")
    case True
    then obtain rest where rest: "c # cs = exists_head @ rest"
      by (auto simp: prefix_def)
    with True have g: "group_at rest \<noteq> None" by simp
    from rest have "c # cs = ''exists because '' @ quote # rest"
      by (simp only: exists_head_quote) simp
    with match_depends_later [OF g, of "''exists because ''"] show ?thesis
      by simp
  next
    case False
    then have "match_exists (c # cs) = match_exists cs"
      by (metis match_exists.simps(2))
    with Cons.prems have "match_exists cs \<noteq> None" by simp
    from Cons.IH [OF this] show ?thesis by (rule match_depends_Cons)
  qed
qed

lemma info_step_one_pattern_eq: "info_step chs info = info_step_one_pattern chs info"
proof (cases info)
  case (JStr s)
  show ?thesis
  proof (cases "match_depends s")
    case None
    with exists_implies_depends [of s] have "match_exists s = None" by blast
    with None JStr show ?thesis
      by (simp add: info_step_def info_step_one_pattern_def group1_def)
  next
    case (Some g)
    with group1_match_depends [of s] have "group1 (match_depends s) = Some g"
      by simp
    with JStr show ?thesis
      by (simp add: info_step_def info_step_one_pattern_def)
  qed
qed (simp_all add: info_step_def info_step_one_pattern_def)

lemma record_step_one_pattern_eq: "record_step rt chs d = record_step_one_pattern rt chs d"
  by (simp add: record_step_def record_step_one_pattern_def info_step_one_pattern_eq Let_def
      cong: if_cong)

lemma chains_loop_one_pattern_eq:
  "chains_loop rt chs ds = chains_loop_one_pattern rt chs ds"
  by (induction ds arbitrary: chs) (simp_all add: record_step_one_pattern_eq split: sum.splits)


subsection \<open>The loops of the extractor\<close>

lemma reasons_loop_strings:
  "reasons_loop chs (map JStr items) =
     Inr (chs @ map JStr (filter keep_chain
       (map (\<lambda>s. replace_first ''_project_#'' (strip_trailing_quote (strip_leading_quote s))) items)))"
  by (induction items arbitrary: chs) (simp_all add: push_if_kept_def)

lemma reasons_loop_member:
  assumes "reasons_loop chs items = Inr out" and "c \<in> set out"
  shows "c \<in> set chs \<or>
    (\<exists>s. JStr s \<in> set items \<and>
       c = JStr (replace_first ''_project_#'' (strip_trailing_quote (strip_leading_quote s))) \<and>
       keep_chain (replace_first ''_project_#'' (strip_trailing_quote (strip_leading_quote s))))"
  using assms
proof (induction items arbitrary: chs)
  case Nil
  then show ?case by simp
next
  case (Cons item items)
  from Cons.prems(1) obtain s where s: "item = JStr s"
    by (cases item) simp_all
  let ?x = "strip_trailing_quote (strip_leading_quote s)"
  from Cons.prems(1) s
  have "reasons_loop (push_if_kept chs (replace_first ''_project_#'' ?x)) items = Inr out"
    by simp
  from Cons.IH [OF this Cons.prems(2)] s show ?case
    by (auto simp: push_if_kept_def split: if_splits)
qed

lemma info_step_depends:
  "info_step chs (JStr s) =
     (case match_depends s of
        None \<Rightarrow> Inr chs
      | Some g \<Rightarrow> Inr (push_if_kept chs (replace_first ''_project_#'' g)))"
  by (simp add: info_step_one_pattern_eq info_step_one_pattern_def group1_match_depends)

lemma info_step_member:
  assumes "info_step chs info = Inr out" and "c \<in> set out"
  shows "c \<in> set chs \<or>
    (\<exists>s g. info = JStr s \<and> match_depends s = Some g \<and>
       c = JStr (replace_first ''_project_#'' g) \<and> keep_chain (replace_first ''_project_#'' g))"
proof -
  from assms(1) obtain s where s: "info = JStr s"
    by (cases info) (simp_all add: info_step_def)
  with assms show ?thesis
    by (auto simp: info_step_depends push_if_kept_def split: option.splits if_splits)
qed

lemma trees_loop_member:
  assumes "trees_loop rt chs trees = Inr out" and "c \<in> set out"
  shows "c \<in> set chs \<or>
    (\<exists>t \<in> set trees. extractChainFromTree rt (Some t) (JStr []) = Inr (Some c))"
  using assms
proof (induction trees arbitrary: chs)
  case Nil
  then show ?case by simp
next
  case (Cons tree trees)
  from Cons.prems(1) obtain chain where
    w: "extractChainFromTree rt (Some tree) (JStr []) = Inr chain" and
    r: "trees_loop rt (case chain of None \<Rightarrow> chs | Some c \<Rightarrow> if truthy c then chs @ [c] else chs) trees
          = Inr out"
    by (auto split: sum.splits)
  from Cons.IH [OF r Cons.prems(2)] w show ?case
    by (auto split: option.splits if_splits)
qed

lemma record_step_member:
  assumes "record_step rt chs d = Inr out" and "c \<in> set out"
  shows "c \<in> set chs \<or> tree_chain rt d c \<or>
    (\<exists>x. (reason_candidate d x \<or> info_candidate d x) \<and>
       c = JStr (replace_first ''_project_#'' x) \<and> keep_chain (replace_first ''_project_#'' x))"
proof -
  from assms(1) obtain dataType where ty: "field d ''type'' = Inr dataType"
    by (auto simp: record_step_def and_then_Inr_iff)
  let ?d = "opt_field (Some d) ''data''"
  consider
    (list) "dataType = Some (JStr ''list'')" "opt_field ?d ''type'' = Some (JStr ''reasons'')"
  | (tree) "\<not> (dataType = Some (JStr ''list'') \<and> opt_field ?d ''type'' = Some (JStr ''reasons''))"
      "dataType = Some (JStr ''tree'')"
  | (info) "\<not> (dataType = Some (JStr ''list'') \<and> opt_field ?d ''type'' = Some (JStr ''reasons''))"
      "dataType \<noteq> Some (JStr ''tree'')" "dataType = Some (JStr ''info'')"
  | (none) "\<not> (dataType = Some (JStr ''list'') \<and> opt_field ?d ''type'' = Some (JStr ''reasons''))"
      "dataType \<noteq> Some (JStr ''tree'')" "dataType \<noteq> Some (JStr ''info'')"
    by blast
  then show ?thesis
  proof cases
    case list
    with assms(1) ty obtain items where
      it: "iterate (or_else (opt_field ?d ''items'') (JArr [])) = Inr items" and
      lp: "reasons_loop chs items = Inr out"
      by (auto simp: record_step_def and_then_Inr_iff)
    from reasons_loop_member [OF lp assms(2)] show ?thesis
    proof
      assume "c \<in> set chs"
      then show ?thesis by simp
    next
      assume "\<exists>s. JStr s \<in> set items \<and>
       c = JStr (replace_first ''_project_#'' (strip_trailing_quote (strip_leading_quote s))) \<and>
       keep_chain (replace_first ''_project_#'' (strip_trailing_quote (strip_leading_quote s)))"
      then obtain s where s: "JStr s \<in> set items"
        "c = JStr (replace_first ''_project_#'' (strip_trailing_quote (strip_leading_quote s)))"
        "keep_chain (replace_first ''_project_#'' (strip_trailing_quote (strip_leading_quote s)))"
        by blast
      have "reason_candidate d (strip_trailing_quote (strip_leading_quote s))"
        unfolding reason_candidate_def list_ex_iff using ty list it s(1)
        by (auto intro!: bexI [of _ "JStr s"])
      with s show ?thesis by blast
    qed
  next
    case tree
    with assms(1) ty obtain trees where
      it: "iterate (or_else (opt_field ?d ''trees'') (JArr [])) = Inr trees" and
      lp: "trees_loop rt chs trees = Inr out"
      by (auto simp: record_step_def and_then_Inr_iff)
    from trees_loop_member [OF lp assms(2)] show ?thesis
    proof
      assume "c \<in> set chs"
      then show ?thesis by simp
    next
      assume "\<exists>t \<in> set trees. extractChainFromTree rt (Some t) (JStr []) = Inr (Some c)"
      then have "tree_chain rt d c"
        unfolding tree_chain_def list_ex_iff using ty tree it by auto
      then show ?thesis by simp
    qed
  next
    case info
    with assms(1) ty have st: "info_step chs (or_else ?d (JStr [])) = Inr out"
      by (auto simp: record_step_def)
    from info_step_member [OF st assms(2)] show ?thesis
    proof
      assume "c \<in> set chs"
      then show ?thesis by simp
    next
      assume "\<exists>s g. or_else ?d (JStr []) = JStr s \<and> match_depends s = Some g \<and>
         c = JStr (replace_first ''_project_#'' g) \<and> keep_chain (replace_first ''_project_#'' g)"
      then obtain s g where g: "or_else ?d (JStr []) = JStr s" "match_depends s = Some g"
        "c = JStr (replace_first ''_project_#'' g)" "keep_chain (replace_first ''_project_#'' g)"
        by blast
      have "info_candidate d g"
        unfolding info_candidate_def using ty info g(1,2) by simp
      with g show ?thesis by blast
    qed
  next
    case none
    with assms ty show ?thesis by (auto simp: record_step_def)
  qed
qed

lemma chains_loop_member:
  assumes "chains_loop rt chs ds = Inr out" and "c \<in> set out"
  shows "c \<in> set chs \<or>
    (\<exists>d \<in> set ds. tree_chain rt d c \<or>
       (\<exists>x. (reason_candidate d x \<or> info_candidate d x) \<and>
          c = JStr (replace_first ''_project_#'' x) \<and> keep_chain (replace_first ''_project_#'' x)))"
  using assms
proof (induction ds arbitrary: chs)
  case Nil
  then show ?case by simp
next
  case (Cons d ds)
  from Cons.prems(1) obtain chs' where
    s: "record_step rt chs d = Inr chs'" and r: "chains_loop rt chs' ds = Inr out"
    by (auto split: sum.splits)
  from Cons.IH [OF r Cons.prems(2)] show ?case
  proof
    assume "c \<in> set chs'"
    from record_step_member [OF s this] show ?thesis by auto
  next
    assume "\<exists>d \<in> set ds. tree_chain rt d c \<or>
       (\<exists>x. (reason_candidate d x \<or> info_candidate d x) \<and>
          c = JStr (replace_first ''_project_#'' x) \<and> keep_chain (replace_first ''_project_#'' x))"
    then show ?thesis by auto
  qed
qed

lemma replace_first_prefix: "replace_first pat (pat @ y) = y"
proof (cases "pat @ y")
  case Nil
  then show ?thesis by simp
next
  case (Cons c cs)
  have "replace_first pat (c # cs) = drop (length pat) (c # cs)"
    unfolding Cons [symmetric] replace_first.simps(2) [of pat c cs, unfolded Cons [symmetric]]
    by simp
  then show ?thesis by (simp add: Cons [symmetric])
qed

lemma keep_chain_clean:
  "keep_chain s \<Longrightarrow>
     s \<noteq> [] \<and> \<not> str_includes s ''workspace aggregator'' \<and> \<not> str_includes s ''workspace-aggregator''"
  by (simp add: keep_chain_def)

lemma join_strings: "join sep (map JStr ss) = Inr (joined sep ss)"
proof (induction ss rule: induct_list012)
  case 1
  then show ?case by simp
next
  case (2 x)
  then show ?case by simp
next
  case (3 x y zs)
  then show ?case by simp
qed


subsection \<open>The segmenter\<close>

lemma includes_call_total:
  "includes_call v p = Inr b \<Longrightarrow> \<exists>b'. includes_call v q = Inr b'"
  by (cases v) simp_all

lemma line_step_kind:
  "line_step rt version st line =
     (case JSON_parse rt line of
        None \<Rightarrow> st
      | Some data \<Rightarrow>
          (case kind_of version data of
             Skipped \<Rightarrow> st
           | Matching \<Rightarrow>
               \<lparr>versionBlocks =
                  (if currentBlock st \<noteq> [] then versionBlocks st @ [currentBlock st]
                   else versionBlocks st),
                currentBlock = [data], inVersionBlock = True\<rparr>
           | Other \<Rightarrow>
               \<lparr>versionBlocks =
                  (if inVersionBlock st \<and> currentBlock st \<noteq> []
                   then versionBlocks st @ [currentBlock st] else versionBlocks st),
                currentBlock = [], inVersionBlock = False\<rparr>
           | Plain \<Rightarrow>
               if inVersionBlock st then st\<lparr>currentBlock := currentBlock st @ [data]\<rparr> else st))"
proof (cases "JSON_parse rt line")
  case None
  then show ?thesis by (simp add: line_step_def)
next
  case (Some data)
  show ?thesis
  proof (cases "field data ''type''")
    case (Inl e)
    with Some show ?thesis by (simp add: line_step_def kind_of_def)
  next
    case (Inr ty)
    then have d: "field data ''data'' = Inr (opt_field (Some data) ''data'')"
      by (cases data) simp_all
    let ?info = "or_else (opt_field (Some data) ''data'') (JStr [])"
    show ?thesis
    proof (cases "ty = Some (JStr ''info'')")
      case False
      with Some Inr show ?thesis by (simp add: line_step_def kind_of_def)
    next
      case True
      show ?thesis
      proof (cases "includes_call ?info ''=> Found''")
        case (Inl e)
        with Some Inr True d show ?thesis
          by (simp add: line_step_def kind_of_def on_info_def)
      next
        case found: (Inr found)
        from includes_call_total [OF found] obtain m where
          m: "includes_call ?info (''@'' @ version) = Inr m" by blast
        from m have m': "includes_call ?info (CHR ''@'' # version) = Inr m" by simp
        show ?thesis
          using Some Inr True d found m'
          by (cases found; cases m) (simp_all add: line_step_def kind_of_def on_info_def)
      qed
    qed
  qed
qed

lemma version_block_snoc:
  "version_block version b \<Longrightarrow> kind_of version d = Plain \<Longrightarrow> version_block version (b @ [d])"
  by (cases b) (simp_all add: version_block_def)

lemma version_block_nonempty: "version_block version b \<Longrightarrow> b \<noteq> []"
  by (auto simp: version_block_def)

lemma line_step_retained:
  assumes "seg_ok version st"
  shows "seg_ok version (line_step rt version st line) \<and>
         seg_flat (line_step rt version st line)
           = seg_flat st @ retained rt version (inVersionBlock st) [line] \<and>
         inVersionBlock (line_step rt version st line)
           = inside_after rt version (inVersionBlock st) [line]"
proof (cases "JSON_parse rt line")
  case None
  with assms show ?thesis by (simp add: line_step_kind)
next
  case (Some data)
  show ?thesis
  proof (cases "kind_of version data")
    case Skipped
    with Some assms show ?thesis by (simp add: line_step_kind next_inside_def)
  next
    case Matching
    with Some assms show ?thesis
      by (auto simp: line_step_kind seg_ok_def seg_flat_def next_inside_def version_block_def
          split: if_splits)
  next
    case Other
    with Some assms show ?thesis
      by (auto simp: line_step_kind seg_ok_def seg_flat_def next_inside_def
          split: if_splits dest: version_block_nonempty)
  next
    case Plain
    with Some assms show ?thesis
      by (auto simp: line_step_kind seg_ok_def seg_flat_def next_inside_def
          split: if_splits intro: version_block_snoc)
  qed
qed

lemma retained_append:
  "retained rt version inside (xs @ ys) =
     retained rt version inside xs @ retained rt version (inside_after rt version inside xs) ys"
  by (induction xs arbitrary: inside) (auto simp: next_inside_def split: option.splits)

lemma inside_after_append:
  "inside_after rt version inside (xs @ ys) =
     inside_after rt version (inside_after rt version inside xs) ys"
  by (induction xs arbitrary: inside) auto

lemma foldl_line_step:
  assumes "seg_ok version st"
  shows "seg_ok version (foldl (line_step rt version) st lines) \<and>
         seg_flat (foldl (line_step rt version) st lines)
           = seg_flat st @ retained rt version (inVersionBlock st) lines"
  using assms
proof (induction lines arbitrary: st)
  case Nil
  then show ?case by simp
next
  case (Cons line lines)
  note step = line_step_retained [OF Cons.prems, of rt line]
  from step have ok: "seg_ok version (line_step rt version st line)" by blast
  have "retained rt version (inVersionBlock st) (line # lines) =
        retained rt version (inVersionBlock st) [line] @
        retained rt version (inside_after rt version (inVersionBlock st) [line]) lines"
    using retained_append [of rt version "inVersionBlock st" "[line]" lines] by simp
  with Cons.IH [OF ok] step show ?case by simp
qed

lemma seg_init_ok: "seg_ok version seg_init"
  by (simp add: seg_ok_def seg_init_def)

lemma flushed_blocks_ok: "list_all (version_block version) (flushed_blocks rt lines version)"
proof -
  let ?st = "foldl (line_step rt version) seg_init lines"
  from foldl_line_step [OF seg_init_ok, of version rt lines]
  have "seg_ok version ?st" by blast
  then show ?thesis
    by (auto simp: flushed_blocks_def Let_def seg_ok_def split: if_splits)
qed

lemma extractVersionLines_retained:
  "extractVersionLines rt lines version = retained rt version False lines"
proof -
  let ?st = "foldl (line_step rt version) seg_init lines"
  from foldl_line_step [OF seg_init_ok, of version rt lines]
  have 1: "seg_ok version ?st" and 2: "seg_flat ?st = retained rt version False lines"
    by (simp_all add: seg_flat_def seg_init_def)
  have "extractVersionLines rt lines version = seg_flat ?st"
    using 1
    by (auto simp: extractVersionLines_def flushed_blocks_def Let_def seg_flat_def seg_ok_def
        split: if_splits)
  with 2 show ?thesis by simp
qed

lemma retained_kinds:
  "d \<in> set (retained rt version inside lines) \<Longrightarrow>
     kind_of version d = Matching \<or> kind_of version d = Plain"
proof (induction lines arbitrary: inside)
  case Nil
  then show ?case by simp
next
  case (Cons line lines)
  then show ?case
    by (cases "JSON_parse rt line"; cases "kind_of version (the (JSON_parse rt line))")
      (auto simp: next_inside_def split: if_splits)
qed

lemma retained_outside_head:
  "retained rt version False lines \<noteq> [] \<Longrightarrow>
     kind_of version (hd (retained rt version False lines)) = Matching"
proof (induction lines)
  case Nil
  then show ?case by simp
next
  case (Cons line lines)
  then show ?case
    by (cases "JSON_parse rt line"; cases "kind_of version (the (JSON_parse rt line))")
      (auto simp: next_inside_def split: if_splits)
qed

lemma retained_no_matching:
  assumes "\<forall>l \<in> set mid. \<forall>e. JSON_parse rt l = Some e \<longrightarrow> kind_of version e \<noteq> Matching"
  shows "retained rt version False mid = [] \<and> inside_after rt version False mid = False"
  using assms
proof (induction mid)
  case Nil
  then show ?case by simp
next
  case (Cons l mid)
  then show ?case
    by (cases "JSON_parse rt l"; cases "kind_of version (the (JSON_parse rt l))")
      (auto simp: next_inside_def)
qed


subsection \<open>The tree walk\<close>

lemma walk_rejects:
  "tree = None \<or> tree = Some JNull \<or> (\<exists>v. tree = Some v \<and> \<not> is_object v) \<Longrightarrow>
     extractChainFromTree rt tree p = Inr None"
  by (auto simp: extractChainFromTree.simps [of rt tree p])

lemma walk_descends:
  assumes "truthy t" "is_object t" "current_chain t q = Inr c" "has_children rt t = Inr True"
  shows "extractChainFromTree rt (Some t) q = extractChainFromTree rt (first_child t) c"
  using assms by (simp add: extractChainFromTree.simps [of rt "Some t" q])

lemma calls_same_result:
  "calls rt tree p tree' p' \<Longrightarrow>
     extractChainFromTree rt tree p = extractChainFromTree rt tree' p'"
  by (induction rule: calls.induct) (simp_all add: walk_descends)

lemma trees_loop_single_null:
  "extractChainFromTree rt (Some tree) (JStr []) = Inr None \<Longrightarrow>
     trees_loop rt chs [tree] = Inr chs"
  by simp

lemma walk_stops:
  assumes "truthy t" "is_object t" "current_chain t q = Inr c" "has_children rt t = Inr False"
  shows "extractChainFromTree rt (Some t) q = Inr (Some c)"
  using assms by (simp add: extractChainFromTree.simps [of rt "Some t" q])

lemma spine_nonempty: "spine n \<noteq> []"
  by (cases n rule: spine.cases) simp_all

lemma joined_Cons: "ys \<noteq> [] \<Longrightarrow> joined sep (x # ys) = x @ sep @ joined sep ys"
  by (cases ys) simp_all

lemma node_json_object: "truthy (node_json n)" "is_object (node_json n)"
  by (cases n; simp add: is_object_def)+

lemma walk_below_parent:
  "ps \<noteq> [] \<Longrightarrow>
     extractChainFromTree rt (Some (node_json n)) (JStr ps)
       = Inr (Some (JStr (ps @ arrow_separator @ joined arrow_separator (spine n))))"
proof (induction n arbitrary: ps)
  case (Node name children)
  let ?t = "node_json (Node name children)"
  have cc: "current_chain ?t (JStr ps) = Inr (JStr (ps @ arrow_separator @ name))"
    using Node.prems by (simp add: current_chain_def node_name_def member_def or_else_def)
  show ?case
  proof (cases children)
    case Nil
    then have "has_children rt ?t = Inr False"
      by (simp add: has_children_def member_def)
    from walk_stops [OF node_json_object cc this] Nil show ?thesis
      by simp
  next
    case (Cons child rest)
    then have hc: "has_children rt ?t = Inr True" and fc: "first_child ?t = Some (node_json child)"
      by (simp_all add: has_children_def first_child_def member_def)
    have "child \<in> set children" using Cons by simp
    moreover have "ps @ arrow_separator @ name \<noteq> []" using Node.prems by simp
    ultimately
    have "extractChainFromTree rt (Some (node_json child)) (JStr (ps @ arrow_separator @ name))
        = Inr (Some (JStr ((ps @ arrow_separator @ name) @ arrow_separator @
            joined arrow_separator (spine child))))"
      by (rule Node.IH)
    with walk_descends [OF node_json_object cc hc] fc Cons show ?thesis
      by (simp add: joined_Cons spine_nonempty)
  qed
qed

lemma walk_joins_spine:
  assumes "name \<noteq> []"
  shows "extractChainFromTree rt (Some (node_json (Node name children))) (JStr [])
       = Inr (Some (JStr (joined arrow_separator (spine (Node name children)))))"
proof -
  let ?t = "node_json (Node name children)"
  have cc: "current_chain ?t (JStr []) = Inr (JStr name)"
    using assms by (simp add: current_chain_def node_name_def member_def or_else_def)
  show ?thesis
  proof (cases children)
    case Nil
    then have "has_children rt ?t = Inr False"
      by (simp add: has_children_def member_def)
    from walk_stops [OF node_json_object cc this] Nil show ?thesis
      by simp
  next
    case (Cons child rest)
    then have hc: "has_children rt ?t = Inr True" and fc: "first_child ?t = Some (node_json child)"
      by (simp_all add: has_children_def first_child_def member_def)
    from walk_below_parent [OF assms, of rt child] walk_descends [OF node_json_object cc hc] fc Cons
    show ?thesis
      by (simp add: joined_Cons spine_nonempty)
  qed
qed


section \<open>Tests of the repository\<close>

text \<open>
  Some tests of \<open>yarn.test.ts\<close>, on the transcripts they give to \<open>getDependencyChain\<close>:
  the entry of the workspace aggregator is filtered out; a line that is no JSON is
  skipped; a \<open>null\<close> among the trees is skipped; a record of an unknown kind gives the
  parse sentinel; an empty or absent \<open>stdout\<close>, or a process that throws, gives the other
  sentinel.
\<close>

lemma test_filters_workspace_aggregator:
  "getDependencyChain scenario_runtime
     (SpawnReturns (Some (marker_line @ [newline] @ aggregator_line))) ''1.0.0''
     = ''project#package-a''"
  by code_simp

lemma test_skips_invalid_json_line:
  "getDependencyChain scenario_runtime
     (SpawnReturns (Some (marker_line @ [newline] @ valid_chain_line @ [newline] @
        ''invalid json line'' @ [newline] @ done_line))) ''1.0.0''
     = ''valid-chain''"
  by code_simp

lemma test_skips_null_tree:
  "getDependencyChain scenario_runtime
     (SpawnReturns (Some (marker_line @ [newline] @ null_tree_line))) ''1.0.0''
     = ''valid-package''"
  by code_simp

lemma test_unknown_record:
  "getDependencyChain scenario_runtime (SpawnReturns (Some unknown_line)) ''1.0.0''
     = ''Unable to parse yarn output''"
  by code_simp

lemma test_no_transcript:
  "getDependencyChain rt (SpawnReturns (Some [])) version = ''Unable to determine dependency chain''"
  "getDependencyChain rt (SpawnReturns None) version = ''Unable to determine dependency chain''"
  "getDependencyChain rt SpawnThrows version = ''Unable to determine dependency chain''"
  by (simp_all add: getDependencyChain_def unable_to_determine_def)


section \<open>C1: what normalisation removes\<close>

text \<open>
  C1 as the specification states it fails: a tree-walk chain is pushed as the node names
  give it, and \<open>replace\<close> with a string pattern removes one occurrence only. Here a node
  named \<open>_project_#app\<close>, and a reason \<open>_project_#_project_#app\<close>, each come back as the chain
  \<open>_project_#app\<close>.
\<close>

theorem project_token_returned:
  "getDependencyChain scenario_runtime
     (SpawnReturns (Some (marker_line @ [newline] @ project_tree_line))) ''1.0.0'' = ''_project_#app'' \<and>
   getDependencyChain scenario_runtime
     (SpawnReturns (Some (marker_line @ [newline] @ twice_line))) ''1.0.0'' = ''_project_#app'' \<and>
   str_includes ''_project_#app'' ''_project_#''"
  by code_simp

text \<open>
  C1, amended. Every chain returned, for every transcript and version, comes from a
  retained record. It is either a chain of the tree walk over a root of a \<open>tree\<close> record,
  built from the node names without any normalisation, or a chain of the
  list-of-reasons or info-text strategy: the candidate of a \<open>reasons\<close> list or of an \<open>info\<close>
  record with its first occurrence of \<open>_project_#\<close> removed (so a candidate that carries
  the token as a prefix loses that prefix), not empty, and containing neither
  \<open>workspace aggregator\<close> nor \<open>workspace-aggregator\<close>.
\<close>

theorem returned_chains_normalised:
  assumes "extractDependencyChains rt (extractVersionLines rt (split_lines (trim output)) version)
             = Inr dependencyChains"
    and "c \<in> set (take 5 dependencyChains)"
  shows "(\<exists>d \<in> set (extractVersionLines rt (split_lines (trim output)) version).
            tree_chain rt d c \<or>
            (\<exists>x. (reason_candidate d x \<or> info_candidate d x) \<and>
               c = JStr (replace_first ''_project_#'' x) \<and>
               replace_first ''_project_#'' x \<noteq> [] \<and>
               \<not> str_includes (replace_first ''_project_#'' x) ''workspace aggregator'' \<and>
               \<not> str_includes (replace_first ''_project_#'' x) ''workspace-aggregator'')) \<and>
         (\<forall>y. replace_first ''_project_#'' (''_project_#'' @ y) = y)"
proof -
  let ?lines = "extractVersionLines rt (split_lines (trim output)) version"
  from assms(1) obtain produced where
    p: "chains_loop rt [] ?lines = Inr produced" and
    u: "dependencyChains = first_occurrences produced"
    by (auto simp: extractDependencyChains_def and_then_Inr_iff dedupe_first_occurrences)
  from assms(2) have "c \<in> set dependencyChains" by (rule in_set_takeD)
  with u first_occurrences_subset have c: "c \<in> set produced" by blast
  from chains_loop_member [OF p c] obtain d where d: "d \<in> set ?lines"
    "tree_chain rt d c \<or>
       (\<exists>x. (reason_candidate d x \<or> info_candidate d x) \<and>
          c = JStr (replace_first ''_project_#'' x) \<and> keep_chain (replace_first ''_project_#'' x))"
    by auto
  from d(2) have "tree_chain rt d c \<or>
            (\<exists>x. (reason_candidate d x \<or> info_candidate d x) \<and>
               c = JStr (replace_first ''_project_#'' x) \<and>
               replace_first ''_project_#'' x \<noteq> [] \<and>
               \<not> str_includes (replace_first ''_project_#'' x) ''workspace aggregator'' \<and>
               \<not> str_includes (replace_first ''_project_#'' x) ''workspace-aggregator'')"
    using keep_chain_clean by blast
  with d(1) have "\<exists>d \<in> set ?lines.
            tree_chain rt d c \<or>
            (\<exists>x. (reason_candidate d x \<or> info_candidate d x) \<and>
               c = JStr (replace_first ''_project_#'' x) \<and>
               replace_first ''_project_#'' x \<noteq> [] \<and>
               \<not> str_includes (replace_first ''_project_#'' x) ''workspace aggregator'' \<and>
               \<not> str_includes (replace_first ''_project_#'' x) ''workspace-aggregator'')"
    by blast
  moreover have "\<forall>y. replace_first ''_project_#'' (''_project_#'' @ y) = y"
    by (simp only: replace_first_prefix) simp
  ultimately show ?thesis by (rule conjI)
qed

theorem returned_chains_normalised_witness:
  "extractDependencyChains scenario_runtime
     (extractVersionLines scenario_runtime
        (split_lines (trim (marker_line @ [newline] @ reasons_line))) ''1.0.0'')
     = Inr [JStr ''package-a'', JStr ''package-b#package-a''] \<and>
   JStr ''package-a'' \<in> set (take 5 [JStr ''package-a'', JStr ''package-b#package-a'']) \<and>
   reason_candidate
     (reasons_record [JStr ''_project_#package-a'', JStr ''package-b#package-a''])
     ''_project_#package-a'' \<and>
   replace_first ''_project_#'' ''_project_#package-a'' = ''package-a''"
proof -
  have h: "extractDependencyChains scenario_runtime
     (extractVersionLines scenario_runtime
        (split_lines (trim (marker_line @ [newline] @ reasons_line))) ''1.0.0'')
     = Inr [JStr ''package-a'', JStr ''package-b#package-a'']"
    by code_simp
  have m: "JStr ''package-a'' \<in> set (take 5 [JStr ''package-a'', JStr ''package-b#package-a''])"
    by simp
  have r: "reason_candidate
     (reasons_record [JStr ''_project_#package-a'', JStr ''package-b#package-a''])
     ''_project_#package-a''"
    by code_simp
  from returned_chains_normalised [OF h m]
  have "replace_first ''_project_#'' (''_project_#'' @ ''package-a'') = ''package-a''"
    by blast
  with h m r show ?thesis by simp
qed


section \<open>C2: the separator of the tree walk\<close>

text \<open>
  C2. On the transcript of the scenario (the marker of \<open>1.0.0\<close>, then the tree \<open>root\<close>,
  \<open>package-b\<close>, \<open>package-a@1.0.0\<close>) the walk follows the first children down to the leaf
  and joins the three names, but with the separator of the source file, which is not
  the arrow U+2192 between two spaces that the claim and the tests of the repository
  expect: the result differs from \<open>root\<close>, arrow, \<open>package-b\<close>, arrow, \<open>package-a@1.0.0\<close>.
\<close>

theorem tree_scenario_separator:
  "getDependencyChain scenario_runtime
     (SpawnReturns (Some (marker_line @ [newline] @ tree_line))) ''1.0.0''
     = ''root'' @ arrow_separator @ ''package-b'' @ arrow_separator @ ''package-a@1.0.0'' \<and>
   getDependencyChain scenario_runtime
     (SpawnReturns (Some (marker_line @ [newline] @ tree_line))) ''1.0.0''
     \<noteq> ''root'' @ unicode_arrow @ ''package-b'' @ unicode_arrow @ ''package-a@1.0.0'' \<and>
   length arrow_separator = 10 \<and> length unicode_arrow = 5"
  by code_simp


section \<open>C3: the retained stream\<close>

text \<open>
  C3. For every stream of lines and every target version, what \<open>extractVersionLines\<close>
  returns is the concatenation of its blocks, each of them a marker of the target
  version followed by records that are no markers; it is the stream of the two-state
  filter started Outside, so the blocks stand in encounter order and all of them are
  there. A retained record is a marker of the target version or a record that is no
  marker: the marker of another version is never retained. The stream, when it is not
  empty, starts with a marker of the target version. The lines between the marker of
  another version and the next marker of the target version (or the end) count for
  nothing: leaving them out changes no result.
\<close>

theorem retained_stream_is_matching_blocks:
  "extractVersionLines rt lines version = concat (flushed_blocks rt lines version) \<and>
   (\<forall>b \<in> set (flushed_blocks rt lines version). version_block version b) \<and>
   extractVersionLines rt lines version = retained rt version False lines \<and>
   (\<forall>d \<in> set (extractVersionLines rt lines version).
      kind_of version d = Matching \<or> kind_of version d = Plain) \<and>
   (extractVersionLines rt lines version \<noteq> [] \<longrightarrow>
      kind_of version (hd (extractVersionLines rt lines version)) = Matching) \<and>
   (\<forall>pre m mid post d.
      JSON_parse rt m = Some d \<and> kind_of version d = Other \<and>
      (\<forall>l \<in> set mid. \<forall>e. JSON_parse rt l = Some e \<longrightarrow> kind_of version e \<noteq> Matching) \<longrightarrow>
      extractVersionLines rt (pre @ [m] @ mid @ post) version
        = extractVersionLines rt (pre @ [m] @ post) version)"
proof -
  have drop_mid: "extractVersionLines rt (pre @ [m] @ mid @ post) version
        = extractVersionLines rt (pre @ [m] @ post) version"
    if m: "JSON_parse rt m = Some d" "kind_of version d = Other"
      and mid: "\<forall>l \<in> set mid. \<forall>e. JSON_parse rt l = Some e \<longrightarrow> kind_of version e \<noteq> Matching"
    for pre m mid post d
  proof -
    let ?i = "inside_after rt version False pre"
    have a: "inside_after rt version ?i [m] = False"
      using m by (simp add: next_inside_def)
    from retained_no_matching [OF mid]
    have b: "retained rt version False mid = []" "inside_after rt version False mid = False"
      by simp_all
    have "retained rt version False (pre @ [m] @ mid @ post)
        = retained rt version False pre @ retained rt version ?i [m] @
          retained rt version False post"
      by (simp only: retained_append inside_after_append a b) simp
    moreover have "retained rt version False (pre @ [m] @ post)
        = retained rt version False pre @ retained rt version ?i [m] @
          retained rt version False post"
      by (simp only: retained_append inside_after_append a)
    ultimately show ?thesis by (simp only: extractVersionLines_retained)
  qed
  have blocks: "\<forall>b \<in> set (flushed_blocks rt lines version). version_block version b"
    using flushed_blocks_ok [of version rt lines] by (simp add: list_all_iff)
  have cat: "extractVersionLines rt lines version = concat (flushed_blocks rt lines version)"
    by (simp add: extractVersionLines_def)
  have rest: "extractVersionLines rt lines version = retained rt version False lines \<and>
   (\<forall>d \<in> set (extractVersionLines rt lines version).
      kind_of version d = Matching \<or> kind_of version d = Plain) \<and>
   (extractVersionLines rt lines version \<noteq> [] \<longrightarrow>
      kind_of version (hd (extractVersionLines rt lines version)) = Matching) \<and>
   (\<forall>pre m mid post d.
      JSON_parse rt m = Some d \<and> kind_of version d = Other \<and>
      (\<forall>l \<in> set mid. \<forall>e. JSON_parse rt l = Some e \<longrightarrow> kind_of version e \<noteq> Matching) \<longrightarrow>
      extractVersionLines rt (pre @ [m] @ mid @ post) version
        = extractVersionLines rt (pre @ [m] @ post) version)"
    using retained_kinds [of _ rt version False lines]
      retained_outside_head [of rt version lines] drop_mid
    by (simp only: extractVersionLines_retained) blast
  from cat blocks rest show ?thesis by (intro conjI) blast+
qed

theorem retained_stream_is_matching_blocks_witness:
  "extractVersionLines scenario_runtime
     [marker_line, reasons_line, other_marker_line, second_line, marker_line, execa_line] ''1.0.0''
     = [info_record ''=> Found package-a@1.0.0'',
        reasons_record [JStr ''_project_#package-a'', JStr ''package-b#package-a''],
        info_record ''=> Found package-a@1.0.0'',
        reasons_record [JStr ''execa#cross-spawn'']] \<and>
   JSON_parse scenario_runtime other_marker_line = Some (info_record ''=> Found package-a@2.0.0'') \<and>
   kind_of ''1.0.0'' (info_record ''=> Found package-a@2.0.0'') = Other \<and>
   kind_of ''1.0.0'' (info_record ''=> Found package-a@1.0.0'') = Matching \<and>
   extractVersionLines scenario_runtime
     ([marker_line, reasons_line] @ [other_marker_line] @ [second_line] @ [marker_line, execa_line])
     ''1.0.0''
     = extractVersionLines scenario_runtime
         ([marker_line, reasons_line] @ [other_marker_line] @ [marker_line, execa_line]) ''1.0.0''"
proof -
  let ?lines = "[marker_line, reasons_line, other_marker_line, second_line, marker_line, execa_line]"
  note t = retained_stream_is_matching_blocks [of scenario_runtime ?lines "''1.0.0''"]
  have r: "retained scenario_runtime ''1.0.0'' False ?lines
     = [info_record ''=> Found package-a@1.0.0'',
        reasons_record [JStr ''_project_#package-a'', JStr ''package-b#package-a''],
        info_record ''=> Found package-a@1.0.0'',
        reasons_record [JStr ''execa#cross-spawn'']]"
    by code_simp
  have p: "JSON_parse scenario_runtime other_marker_line
      = Some (info_record ''=> Found package-a@2.0.0'')"
    by code_simp
  have k: "kind_of ''1.0.0'' (info_record ''=> Found package-a@2.0.0'') = Other"
    by code_simp
  have k1: "kind_of ''1.0.0'' (info_record ''=> Found package-a@1.0.0'') = Matching"
    by code_simp
  have s: "JSON_parse scenario_runtime second_line = Some (reasons_record [JStr ''version-2.0.0''])"
    by code_simp
  have sk: "kind_of ''1.0.0'' (reasons_record [JStr ''version-2.0.0'']) = Plain"
    by code_simp
  have mid: "\<forall>l \<in> set [second_line]. \<forall>e. JSON_parse scenario_runtime l = Some e \<longrightarrow>
      kind_of ''1.0.0'' e \<noteq> Matching"
    using s sk by simp
  from t have t': "\<forall>pre m mid post d.
      JSON_parse scenario_runtime m = Some d \<and> kind_of ''1.0.0'' d = Other \<and>
      (\<forall>l \<in> set mid. \<forall>e. JSON_parse scenario_runtime l = Some e \<longrightarrow>
         kind_of ''1.0.0'' e \<noteq> Matching) \<longrightarrow>
      extractVersionLines scenario_runtime (pre @ [m] @ mid @ post) ''1.0.0''
        = extractVersionLines scenario_runtime (pre @ [m] @ post) ''1.0.0''"
    by blast
  from t' p k mid
  have "extractVersionLines scenario_runtime
     ([marker_line, reasons_line] @ [other_marker_line] @ [second_line] @ [marker_line, execa_line])
     ''1.0.0''
     = extractVersionLines scenario_runtime
         ([marker_line, reasons_line] @ [other_marker_line] @ [marker_line, execa_line]) ''1.0.0''"
    by blast
  moreover from t have "extractVersionLines scenario_runtime ?lines ''1.0.0''
     = retained scenario_runtime ''1.0.0'' False ?lines"
    by blast
  then have "extractVersionLines scenario_runtime ?lines ''1.0.0''
     = [info_record ''=> Found package-a@1.0.0'',
        reasons_record [JStr ''_project_#package-a'', JStr ''package-b#package-a''],
        info_record ''=> Found package-a@1.0.0'',
        reasons_record [JStr ''execa#cross-spawn'']]"
    by (simp only: r)
  ultimately show ?thesis using p k k1 by blast
qed


section \<open>C4: the three results\<close>

text \<open>
  C4 as the specification states it fails: with a transcript at hand from which nothing
  is extracted, the result can be the sentinel of the missing transcript. The \<open>catch\<close> of
  \<open>getDependencyChain\<close> takes what the parsing throws, here the \<open>TypeError\<close> of \<open>item.replace\<close>
  on the number of the reasons list \<open>[1]\<close>.
\<close>

theorem transcript_at_hand_yet_undetermined:
  "marker_line @ [newline] @ number_item_line \<noteq> [] \<and>
   extractDependencyChains scenario_runtime
     (extractVersionLines scenario_runtime
        (split_lines (trim (marker_line @ [newline] @ number_item_line))) ''1.0.0'')
     = Inl TypeError \<and>
   getDependencyChain scenario_runtime
     (SpawnReturns (Some (marker_line @ [newline] @ number_item_line))) ''1.0.0''
     = ''Unable to determine dependency chain''"
  by code_simp

text \<open>
  C4, amended. \<open>getDependencyChain\<close> returns (a) the join with \<open>" | "\<close> of the first five
  chains at most, when \<open>stdout\<close> is a non-empty string and the extraction completes with at
  least one chain; (b) \<open>Unable to parse yarn output\<close> when \<open>stdout\<close> is a non-empty string and
  the extraction completes with no chain; (c) \<open>Unable to determine dependency chain\<close> when
  \<open>spawnSync\<close> throws, when \<open>stdout\<close> is \<open>null\<close> or empty, and also when the extraction or the
  join throws on the transcript. The two sentinels are different strings.
\<close>

theorem three_results:
  "(result = SpawnThrows \<or> result = SpawnReturns None \<or> result = SpawnReturns (Some []) \<longrightarrow>
      getDependencyChain rt result version = unable_to_determine) \<and>
   (stdout \<noteq> [] \<and>
    extractDependencyChains rt (extractVersionLines rt (split_lines (trim stdout)) version)
      = Inr [] \<longrightarrow>
      getDependencyChain rt (SpawnReturns (Some stdout)) version = unable_to_parse) \<and>
   (stdout \<noteq> [] \<and> dependencyChains \<noteq> [] \<and>
    extractDependencyChains rt (extractVersionLines rt (split_lines (trim stdout)) version)
      = Inr dependencyChains \<and>
    join '' | '' (take 5 dependencyChains) = Inr chain \<longrightarrow>
      getDependencyChain rt (SpawnReturns (Some stdout)) version = chain \<and>
      length (take 5 dependencyChains) \<le> 5) \<and>
   (stdout \<noteq> [] \<and>
    (extractDependencyChains rt (extractVersionLines rt (split_lines (trim stdout)) version)
       = Inl e \<or>
     (\<exists>dependencyChains. dependencyChains \<noteq> [] \<and>
        extractDependencyChains rt (extractVersionLines rt (split_lines (trim stdout)) version)
          = Inr dependencyChains \<and>
        join '' | '' (take 5 dependencyChains) = Inl e)) \<longrightarrow>
      getDependencyChain rt (SpawnReturns (Some stdout)) version = unable_to_determine) \<and>
   unable_to_parse \<noteq> unable_to_determine"
proof -
  have a: "getDependencyChain rt result version = unable_to_determine"
    if "result = SpawnThrows \<or> result = SpawnReturns None \<or> result = SpawnReturns (Some [])"
    using that by (auto simp: getDependencyChain_def)
  have b: "getDependencyChain rt (SpawnReturns (Some stdout)) version = unable_to_parse"
    if "stdout \<noteq> [] \<and>
        extractDependencyChains rt (extractVersionLines rt (split_lines (trim stdout)) version)
          = Inr []"
    using that by (simp add: getDependencyChain_def parseYarnWhyOutput_def Let_def)
  have c: "getDependencyChain rt (SpawnReturns (Some stdout)) version = chain \<and>
        length (take 5 dependencyChains) \<le> 5"
    if "stdout \<noteq> [] \<and> dependencyChains \<noteq> [] \<and>
        extractDependencyChains rt (extractVersionLines rt (split_lines (trim stdout)) version)
          = Inr dependencyChains \<and>
        join '' | '' (take 5 dependencyChains) = Inr chain"
    using that by (simp add: getDependencyChain_def parseYarnWhyOutput_def Let_def)
  have d: "getDependencyChain rt (SpawnReturns (Some stdout)) version = unable_to_determine"
    if "stdout \<noteq> [] \<and>
        (extractDependencyChains rt (extractVersionLines rt (split_lines (trim stdout)) version)
           = Inl e \<or>
         (\<exists>dependencyChains. dependencyChains \<noteq> [] \<and>
            extractDependencyChains rt (extractVersionLines rt (split_lines (trim stdout)) version)
              = Inr dependencyChains \<and>
            join '' | '' (take 5 dependencyChains) = Inl e))"
    using that by (auto simp: getDependencyChain_def parseYarnWhyOutput_def Let_def)
  have e: "unable_to_parse \<noteq> unable_to_determine"
    by (simp add: unable_to_parse_def unable_to_determine_def)
  from a b c d e show ?thesis by blast
qed

theorem three_results_witness:
  "getDependencyChain scenario_runtime SpawnThrows ''1.0.0'' = unable_to_determine \<and>
   getDependencyChain scenario_runtime (SpawnReturns (Some other_marker_line)) ''1.0.0''
     = unable_to_parse \<and>
   getDependencyChain scenario_runtime
     (SpawnReturns (Some (marker_line @ [newline] @ reasons_line))) ''1.0.0''
     = ''package-a | package-b#package-a'' \<and>
   getDependencyChain scenario_runtime
     (SpawnReturns (Some (marker_line @ [newline] @ number_item_line))) ''1.0.0''
     = unable_to_determine"
proof -
  have 1: "getDependencyChain scenario_runtime SpawnThrows ''1.0.0'' = unable_to_determine"
    using three_results [of SpawnThrows scenario_runtime "''1.0.0''"] by blast
  have n2: "other_marker_line \<noteq> []" by (simp add: other_marker_line_def)
  have x2: "extractDependencyChains scenario_runtime
      (extractVersionLines scenario_runtime (split_lines (trim other_marker_line)) ''1.0.0'')
      = Inr []"
    by code_simp
  have 2: "getDependencyChain scenario_runtime (SpawnReturns (Some other_marker_line)) ''1.0.0''
      = unable_to_parse"
    using three_results [of _ scenario_runtime "''1.0.0''" other_marker_line] n2 x2 by blast
  have n3: "marker_line @ [newline] @ reasons_line \<noteq> []" by simp
  have x3: "extractDependencyChains scenario_runtime
      (extractVersionLines scenario_runtime
         (split_lines (trim (marker_line @ [newline] @ reasons_line))) ''1.0.0'')
      = Inr [JStr ''package-a'', JStr ''package-b#package-a'']"
    by code_simp
  have j3: "join '' | '' (take 5 [JStr ''package-a'', JStr ''package-b#package-a''])
      = Inr ''package-a | package-b#package-a''"
    by code_simp
  have 3: "getDependencyChain scenario_runtime
      (SpawnReturns (Some (marker_line @ [newline] @ reasons_line))) ''1.0.0''
      = ''package-a | package-b#package-a''"
    using three_results [of _ scenario_runtime "''1.0.0''" "marker_line @ [newline] @ reasons_line"
        "[JStr ''package-a'', JStr ''package-b#package-a'']" "''package-a | package-b#package-a''"]
      n3 x3 j3
    by blast
  have n4: "marker_line @ [newline] @ number_item_line \<noteq> []" by simp
  have x4: "extractDependencyChains scenario_runtime
      (extractVersionLines scenario_runtime
         (split_lines (trim (marker_line @ [newline] @ number_item_line))) ''1.0.0'')
      = Inl TypeError"
    by code_simp
  have 4: "getDependencyChain scenario_runtime
      (SpawnReturns (Some (marker_line @ [newline] @ number_item_line))) ''1.0.0''
      = unable_to_determine"
    using three_results [of _ scenario_runtime "''1.0.0''"
        "marker_line @ [newline] @ number_item_line" _ _ TypeError] n4 x4
    by blast
  from 1 2 3 4 show ?thesis by blast
qed


section \<open>C5: the cap of five\<close>

text \<open>
  C5. Whenever chains are extracted, what \<open>parseYarnWhyOutput\<close> returns is the join with
  \<open>" | "\<close> of the first five entries of the deduplicated list, in its order: at most five
  entries, exactly five when the list has five or more, the others left out without a
  trace. The transcript whose matching block carries the seven reasons \<open>chain1\<close> to
  \<open>chain7\<close> gives \<open>chain1 | chain2 | chain3 | chain4 | chain5\<close>.
\<close>

theorem at_most_five_chains:
  assumes "extractDependencyChains rt (extractVersionLines rt (split_lines (trim output)) version)
             = Inr dependencyChains"
    and "dependencyChains \<noteq> []"
  shows "parseYarnWhyOutput rt output version = join '' | '' (take 5 dependencyChains) \<and>
         length (take 5 dependencyChains) \<le> 5 \<and>
         prefix (take 5 dependencyChains) dependencyChains \<and>
         (5 \<le> length dependencyChains \<longrightarrow> length (take 5 dependencyChains) = 5) \<and>
         (\<forall>ss. take 5 dependencyChains = map JStr ss \<longrightarrow>
            parseYarnWhyOutput rt output version = Inr (joined '' | '' ss)) \<and>
         getDependencyChain scenario_runtime
           (SpawnReturns (Some (marker_line @ [newline] @ seven_line))) ''1.0.0''
           = ''chain1 | chain2 | chain3 | chain4 | chain5''"
proof -
  have p: "parseYarnWhyOutput rt output version = join '' | '' (take 5 dependencyChains)"
    using assms by (simp add: parseYarnWhyOutput_def Let_def)
  have j: "parseYarnWhyOutput rt output version = Inr (joined '' | '' ss)"
    if "take 5 dependencyChains = map JStr ss" for ss
    using p that by (simp only: join_strings)
  have s: "getDependencyChain scenario_runtime
           (SpawnReturns (Some (marker_line @ [newline] @ seven_line))) ''1.0.0''
           = ''chain1 | chain2 | chain3 | chain4 | chain5''"
    by code_simp
  have "prefix (take 5 dependencyChains) dependencyChains"
    by (rule take_is_prefix)
  with p j s show ?thesis by simp
qed

theorem at_most_five_chains_witness:
  "extractDependencyChains scenario_runtime
     (extractVersionLines scenario_runtime
        (split_lines (trim (marker_line @ [newline] @ seven_line))) ''1.0.0'') = Inr seven_items \<and>
   seven_items \<noteq> [] \<and>
   length (take 5 seven_items) = 5 \<and>
   parseYarnWhyOutput scenario_runtime (marker_line @ [newline] @ seven_line) ''1.0.0''
     = Inr ''chain1 | chain2 | chain3 | chain4 | chain5''"
proof -
  have h: "extractDependencyChains scenario_runtime
     (extractVersionLines scenario_runtime
        (split_lines (trim (marker_line @ [newline] @ seven_line))) ''1.0.0'') = Inr seven_items"
    by code_simp
  have n: "seven_items \<noteq> []" by (simp add: seven_items_def)
  have t: "take 5 seven_items =
      map JStr [''chain1'', ''chain2'', ''chain3'', ''chain4'', ''chain5'']"
    by (simp add: seven_items_def)
  from at_most_five_chains [OF h n] t
  have "parseYarnWhyOutput scenario_runtime (marker_line @ [newline] @ seven_line) ''1.0.0''
     = Inr (joined '' | '' [''chain1'', ''chain2'', ''chain3'', ''chain4'', ''chain5''])"
    by blast
  with h n show ?thesis by (simp add: seven_items_def)
qed


section \<open>C6: the list of reasons\<close>

text \<open>
  C6. A \<open>list\<close> record of sub-kind \<open>reasons\<close> whose items are strings contributes, for each
  item in order, the item without one leading and one trailing quote character and
  without its first \<open>_project_#\<close>, when that chain passes the guard. One quote at most is
  taken from each end, and an end without a quote is left alone. The transcript with the
  marker of \<open>1.0.0\<close> and the reasons \<open>_project_#package-a\<close> and \<open>package-b#package-a\<close> gives
  \<open>package-a | package-b#package-a\<close>.
\<close>

theorem reasons_items_stripped:
  assumes "field data ''type'' = Inr (Some (JStr ''list''))"
    and "opt_field (opt_field (Some data) ''data'') ''type'' = Some (JStr ''reasons'')"
    and "opt_field (opt_field (Some data) ''data'') ''items'' = Some (JArr (map JStr items))"
  shows "record_step rt chs data =
           Inr (chs @ map JStr (filter keep_chain
             (map (\<lambda>s. replace_first ''_project_#'' (strip_trailing_quote (strip_leading_quote s)))
                items))) \<and>
         (\<forall>s. strip_trailing_quote (strip_leading_quote ([quote] @ s @ [quote])) = s) \<and>
         (\<forall>s. \<not> prefix [quote] s \<longrightarrow> strip_leading_quote s = s) \<and>
         (\<forall>s. \<not> suffix [quote] s \<longrightarrow> strip_trailing_quote s = s) \<and>
         getDependencyChain scenario_runtime
           (SpawnReturns (Some (marker_line @ [newline] @ reasons_line))) ''1.0.0''
           = ''package-a | package-b#package-a''"
proof -
  have r: "record_step rt chs data =
           Inr (chs @ map JStr (filter keep_chain
             (map (\<lambda>s. replace_first ''_project_#'' (strip_trailing_quote (strip_leading_quote s)))
                items)))"
    using assms by (simp add: record_step_def or_else_def reasons_loop_strings)
  have a: "strip_trailing_quote (strip_leading_quote ([quote] @ s @ [quote])) = s" for s
    by (simp add: strip_leading_quote_def strip_trailing_quote_def)
  have b: "strip_leading_quote s = s" if "\<not> prefix [quote] s" for s
    using that by (cases s) (auto simp: strip_leading_quote_def)
  have c: "strip_trailing_quote s = s" if "\<not> suffix [quote] s" for s
  proof (cases "s = []")
    case True
    then show ?thesis by (simp add: strip_trailing_quote_def)
  next
    case False
    then have "s = butlast s @ [last s]" by simp
    with that have "last s \<noteq> quote" by (metis suffixI)
    then show ?thesis by (simp add: strip_trailing_quote_def)
  qed
  have s: "getDependencyChain scenario_runtime
           (SpawnReturns (Some (marker_line @ [newline] @ reasons_line))) ''1.0.0''
           = ''package-a | package-b#package-a''"
    by code_simp
  from r a b c s show ?thesis by blast
qed

theorem reasons_items_stripped_witness:
  "field (reasons_record [JStr ''_project_#package-a'', JStr ''package-b#package-a'']) ''type''
     = Inr (Some (JStr ''list'')) \<and>
   record_step scenario_runtime []
     (reasons_record (map JStr [''_project_#package-a'', ''package-b#package-a'']))
     = Inr [JStr ''package-a'', JStr ''package-b#package-a'']"
proof -
  let ?d = "reasons_record (map JStr [''_project_#package-a'', ''package-b#package-a''])"
  have 1: "field ?d ''type'' = Inr (Some (JStr ''list''))"
    by (simp add: reasons_record_def member_def)
  have 2: "opt_field (opt_field (Some ?d) ''data'') ''type'' = Some (JStr ''reasons'')"
    by (simp add: reasons_record_def member_def)
  have 3: "opt_field (opt_field (Some ?d) ''data'') ''items''
      = Some (JArr (map JStr [''_project_#package-a'', ''package-b#package-a'']))"
    by (simp add: reasons_record_def member_def)
  have k: "filter keep_chain
      (map (\<lambda>s. replace_first ''_project_#'' (strip_trailing_quote (strip_leading_quote s)))
         [''_project_#package-a'', ''package-b#package-a''])
      = [''package-a'', ''package-b#package-a'']"
    by code_simp
  from reasons_items_stripped [OF 1 2 3, of scenario_runtime "[]"] k 1
  show ?thesis by simp
qed


section \<open>C7: no duplicates, first-seen order\<close>

text \<open>
  C7. The list that \<open>extractDependencyChains\<close> returns has no two entries that are equal
  (as \<open>Set\<close> compares them, and so no two equal strings), and it is the list of the
  first occurrences of the chains the strategies produced, in the order in which
  they were produced: a chain equal to an earlier one is dropped.
\<close>

theorem unique_chains_first_seen:
  assumes "extractDependencyChains rt versionLines = Inr uniqueChains"
  shows "(\<forall>i j. i < j \<and> j < length uniqueChains \<longrightarrow>
            \<not> same_value_zero (uniqueChains ! i) (uniqueChains ! j)) \<and>
         (\<forall>i j s. i < j \<and> j < length uniqueChains \<and> uniqueChains ! i = JStr s \<longrightarrow>
            uniqueChains ! j \<noteq> JStr s) \<and>
         (\<exists>produced. chains_loop rt [] versionLines = Inr produced \<and>
            uniqueChains = first_occurrences produced)"
proof -
  from assms obtain produced where
    p: "chains_loop rt [] versionLines = Inr produced" and
    u: "uniqueChains = first_occurrences produced"
    by (auto simp: extractDependencyChains_def and_then_Inr_iff dedupe_first_occurrences)
  have pw: "\<not> same_value_zero (uniqueChains ! i) (uniqueChains ! j)"
    if "i < j" "j < length uniqueChains" for i j
    using that first_occurrences_pairwise [of i j produced] by (simp add: u)
  have "uniqueChains ! j \<noteq> JStr s"
    if "i < j" "j < length uniqueChains" "uniqueChains ! i = JStr s" for i j s
  proof
    assume "uniqueChains ! j = JStr s"
    with that(3) have "same_value_zero (uniqueChains ! i) (uniqueChains ! j)" by simp
    with pw [OF that(1,2)] show False by simp
  qed
  with pw p u show ?thesis by blast
qed

theorem unique_chains_first_seen_witness:
  "extractDependencyChains scenario_runtime
     [reasons_record [JStr ''b#a'', JStr ''b#a'', JStr ''c#a'']] = Inr [JStr ''b#a'', JStr ''c#a''] \<and>
   \<not> same_value_zero (JStr ''b#a'') (JStr ''c#a'') \<and>
   (\<exists>produced.
      chains_loop scenario_runtime [] [reasons_record [JStr ''b#a'', JStr ''b#a'', JStr ''c#a'']]
        = Inr produced \<and>
      [JStr ''b#a'', JStr ''c#a''] = first_occurrences produced)"
proof -
  have h: "extractDependencyChains scenario_runtime
     [reasons_record [JStr ''b#a'', JStr ''b#a'', JStr ''c#a'']] = Inr [JStr ''b#a'', JStr ''c#a'']"
    by code_simp
  note t = unique_chains_first_seen [OF h]
  from t have "\<not> same_value_zero ([JStr ''b#a'', JStr ''c#a''] ! 0) ([JStr ''b#a'', JStr ''c#a''] ! 1)"
    by (elim conjE allE [of _ 0] allE [of _ "1::nat"]) simp
  with t h show ?thesis by simp
qed


section \<open>C8: the second pattern never fires\<close>

text \<open>
  C8. Whenever the pattern \<open>exists because "X" depends on it\<close> matches a message, the
  pattern \<open>"X" depends on it\<close> matches it too, so the \<open>else if\<close> branch of the info-text
  strategy is never taken: the info branch, and with it \<open>extractDependencyChains\<close>, gives
  the same result on every input when that branch is deleted.
\<close>

theorem exists_because_branch_dead:
  "(\<forall>s. match_exists s \<noteq> None \<longrightarrow> match_depends s \<noteq> None) \<and>
   (\<forall>chs info. info_step chs info = info_step_one_pattern chs info) \<and>
   extractDependencyChains rt versionLines = extractDependencyChains_one_pattern rt versionLines"
  using exists_implies_depends info_step_one_pattern_eq
  by (simp add: extractDependencyChains_def extractDependencyChains_one_pattern_def
      chains_loop_one_pattern_eq)

theorem exists_because_branch_dead_witness:
  \<open>match_exists ''This module exists because "_project_#dep-c#other" depends on it.''
     = Some ''_project_#dep-c#other'' \<and>
   match_depends ''This module exists because "_project_#dep-c#other" depends on it.'' \<noteq> None \<and>
   extractDependencyChains scenario_runtime
     [info_record ''This module exists because "_project_#dep-c#other" depends on it.'']
     = extractDependencyChains_one_pattern scenario_runtime
         [info_record ''This module exists because "_project_#dep-c#other" depends on it.'']\<close>
proof -
  note t = exists_because_branch_dead [of scenario_runtime
      \<open>[info_record ''This module exists because "_project_#dep-c#other" depends on it.'']\<close>]
  have e: \<open>match_exists ''This module exists because "_project_#dep-c#other" depends on it.''
     = Some ''_project_#dep-c#other''\<close>
    by code_simp
  then have \<open>match_exists ''This module exists because "_project_#dep-c#other" depends on it.''
      \<noteq> None\<close>
    by simp
  with t have \<open>match_depends ''This module exists because "_project_#dep-c#other" depends on it.''
      \<noteq> None\<close>
    by blast
  with t e show ?thesis by blast
qed


section \<open>C9: markers by substring\<close>

text \<open>
  C9. An \<open>info\<close> record with a string message is the marker of the target version exactly
  when the message contains \<open>=> Found\<close> and contains \<open>@\<close> followed by the version, anywhere
  and with no test of what stands around them: such a record opens a block that
  starts with itself, and from Outside no other record leads Inside. So for the target
  \<open>0.6\<close> there is a transcript whose only marker message contains \<open>@7.0.6\<close> and whose block
  is taken as matching, its reason being returned: the one with the marker
  \<open>=> Found @0.6/tools#cross-spawn@7.0.6\<close>. What matches there is the \<open>@0.6\<close> of the message:
  the marker \<open>=> Found cross-spawn@7.0.6\<close> is not matched by \<open>0.6\<close>, since \<open>@0.6\<close> does not
  occur in it, while it is matched by \<open>7.0\<close>.
\<close>

theorem marker_by_substrings:
  assumes "JSON_parse rt line = Some data"
    and "field data ''type'' = Inr (Some (JStr ''info''))"
    and "opt_field (Some data) ''data'' = Some (JStr msg)"
  shows "(kind_of version data = Matching \<longleftrightarrow>
            str_includes msg ''=> Found'' \<and> str_includes msg (''@'' @ version)) \<and>
         (str_includes msg ''=> Found'' \<and> str_includes msg (''@'' @ version) \<longrightarrow>
            inVersionBlock (line_step rt version st line) \<and>
            currentBlock (line_step rt version st line) = [data]) \<and>
         (\<not> inVersionBlock st \<longrightarrow>
            (inVersionBlock (line_step rt version st line) \<longleftrightarrow>
               str_includes msg ''=> Found'' \<and> str_includes msg (''@'' @ version))) \<and>
         str_includes ''=> Found @0.6/tools#cross-spawn@7.0.6'' ''@7.0.6'' \<and>
         getDependencyChain scenario_runtime
           (SpawnReturns (Some (scoped_706_line @ [newline] @ execa_line))) ''0.6''
           = ''execa#cross-spawn'' \<and>
         getDependencyChain scenario_runtime
           (SpawnReturns (Some (found_706_line @ [newline] @ execa_line))) ''7.0''
           = ''execa#cross-spawn'' \<and>
         getDependencyChain scenario_runtime
           (SpawnReturns (Some (found_706_line @ [newline] @ execa_line))) ''0.6''
           = ''Unable to parse yarn output''"
proof -
  have info: "or_else (opt_field (Some data) ''data'') (JStr []) = JStr msg"
    using assms(3) by (simp add: or_else_def)
  have k: "kind_of version data =
      (if str_includes msg ''=> Found''
       then if str_includes msg (''@'' @ version) then Matching else Other
       else Plain)"
    using assms(2) by (simp add: kind_of_def info)
  have s: "line_step rt version st line =
      (case kind_of version data of
         Skipped \<Rightarrow> st
       | Matching \<Rightarrow>
           \<lparr>versionBlocks =
              (if currentBlock st \<noteq> [] then versionBlocks st @ [currentBlock st]
               else versionBlocks st),
            currentBlock = [data], inVersionBlock = True\<rparr>
       | Other \<Rightarrow>
           \<lparr>versionBlocks =
              (if inVersionBlock st \<and> currentBlock st \<noteq> []
               then versionBlocks st @ [currentBlock st] else versionBlocks st),
            currentBlock = [], inVersionBlock = False\<rparr>
       | Plain \<Rightarrow>
           if inVersionBlock st then st\<lparr>currentBlock := currentBlock st @ [data]\<rparr> else st)"
    using assms(1) by (simp add: line_step_kind)
  have 1: "kind_of version data = Matching \<longleftrightarrow>
      str_includes msg ''=> Found'' \<and> str_includes msg (''@'' @ version)"
    unfolding k by simp
  have 2: "inVersionBlock (line_step rt version st line) \<and>
      currentBlock (line_step rt version st line) = [data]"
    if "str_includes msg ''=> Found'' \<and> str_includes msg (''@'' @ version)"
    using that 1 by (simp only: s) simp
  have 3: "inVersionBlock (line_step rt version st line) \<longleftrightarrow>
      str_includes msg ''=> Found'' \<and> str_includes msg (''@'' @ version)"
    if "\<not> inVersionBlock st"
    using that unfolding s k by simp
  have 4: "getDependencyChain scenario_runtime
      (SpawnReturns (Some (found_706_line @ [newline] @ execa_line))) ''7.0''
      = ''execa#cross-spawn''"
    by code_simp
  have 5: "str_includes ''=> Found @0.6/tools#cross-spawn@7.0.6'' ''@7.0.6''"
    by code_simp
  have 6: "getDependencyChain scenario_runtime
      (SpawnReturns (Some (scoped_706_line @ [newline] @ execa_line))) ''0.6''
      = ''execa#cross-spawn''"
    by code_simp
  have 7: "getDependencyChain scenario_runtime
      (SpawnReturns (Some (found_706_line @ [newline] @ execa_line))) ''0.6''
      = ''Unable to parse yarn output''"
    by code_simp
  from 1 2 3 4 5 6 7 show ?thesis by blast
qed

theorem marker_by_substrings_witness:
  "JSON_parse scenario_runtime scoped_706_line
     = Some (info_record ''=> Found @0.6/tools#cross-spawn@7.0.6'') \<and>
   str_includes ''=> Found @0.6/tools#cross-spawn@7.0.6'' ''=> Found'' \<and>
   str_includes ''=> Found @0.6/tools#cross-spawn@7.0.6'' (''@'' @ ''0.6'') \<and>
   kind_of ''0.6'' (info_record ''=> Found @0.6/tools#cross-spawn@7.0.6'') = Matching \<and>
   inVersionBlock (line_step scenario_runtime ''0.6'' seg_init scoped_706_line)"
proof -
  let ?d = "info_record ''=> Found @0.6/tools#cross-spawn@7.0.6''"
  have p: "JSON_parse scenario_runtime scoped_706_line = Some ?d"
    by code_simp
  have f: "field ?d ''type'' = Inr (Some (JStr ''info''))"
    by (simp add: info_record_def member_def)
  have m: "opt_field (Some ?d) ''data'' = Some (JStr ''=> Found @0.6/tools#cross-spawn@7.0.6'')"
    by (simp add: info_record_def member_def)
  have a: "str_includes ''=> Found @0.6/tools#cross-spawn@7.0.6'' ''=> Found''"
    by code_simp
  have b: "str_includes ''=> Found @0.6/tools#cross-spawn@7.0.6'' (''@'' @ ''0.6'')"
    by code_simp
  from marker_by_substrings [OF p f m, of "''0.6''" seg_init] a b
  have "kind_of ''0.6'' ?d = Matching \<and>
      inVersionBlock (line_step scenario_runtime ''0.6'' seg_init scoped_706_line)"
    by blast
  with p a b show ?thesis by blast
qed


section \<open>C10: a first child that is no node\<close>

text \<open>
  C10. When the walk from a root arrives at a node whose \<open>children\<close> is a non-empty array
  with a first element that is \<open>null\<close> or not an object, the walk never returns a chain:
  nothing of the names gathered so far is emitted. Where the chain of that node can be
  built (it always can when the names are strings), the walk returns \<open>null\<close> and the
  tree adds nothing to the chains.
\<close>

theorem bad_first_child_discards_chain:
  assumes "calls rt (Some root) (JStr []) (Some node) p"
    and "opt_field (Some node) ''children'' = Some (JArr (x # xs))"
    and "x = JNull \<or> \<not> is_object x"
  shows "(\<forall>c. extractChainFromTree rt (Some root) (JStr []) \<noteq> Inr (Some c)) \<and>
         (\<forall>c. current_chain node p = Inr c \<longrightarrow>
            extractChainFromTree rt (Some root) (JStr []) = Inr None \<and>
            (\<forall>chs. trees_loop rt chs [root] = Inr chs)) \<and>
         (\<forall>ps n. p = JStr ps \<and> node_name node = JStr n \<longrightarrow>
            current_chain node p = Inr (JStr (if ps = [] then n else ps @ arrow_separator @ n)))"
proof -
  from assms(2) obtain kvs where node: "node = JObj kvs"
    by (cases node) simp_all
  have obj: "truthy node" "is_object node" by (simp_all add: node is_object_def)
  have hc: "has_children rt node = Inr True"
    using assms(2) by (simp add: has_children_def)
  have fc: "first_child node = Some x"
    using assms(2) by (simp add: first_child_def)
  have same: "extractChainFromTree rt (Some root) (JStr []) = extractChainFromTree rt (Some node) p"
    using assms(1) by (rule calls_same_result)
  have rej: "extractChainFromTree rt (Some x) c = Inr None" for c
    using assms(3) by (intro walk_rejects) auto
  have at_node: "extractChainFromTree rt (Some node) p =
      (case current_chain node p of Inl e \<Rightarrow> Inl e | Inr c \<Rightarrow> Inr None)"
    using obj hc fc rej
    by (simp add: extractChainFromTree.simps [of rt "Some node" p] split: sum.splits)
  have 1: "extractChainFromTree rt (Some root) (JStr []) \<noteq> Inr (Some c)" for c
    unfolding same at_node by (simp split: sum.splits)
  have 2: "extractChainFromTree rt (Some root) (JStr []) = Inr None \<and>
      (\<forall>chs. trees_loop rt chs [root] = Inr chs)"
    if "current_chain node p = Inr c" for c
  proof -
    from that have "extractChainFromTree rt (Some root) (JStr []) = Inr None"
      unfolding same at_node by simp
    then show ?thesis by simp
  qed
  have 3: "current_chain node p = Inr (JStr (if ps = [] then n else ps @ arrow_separator @ n))"
    if "p = JStr ps \<and> node_name node = JStr n" for ps n
    using that by (simp add: current_chain_def)
  from 1 2 3 show ?thesis by blast
qed

theorem bad_first_child_discards_chain_witness:
  "calls scenario_runtime (Some null_child_root) (JStr []) (Some null_child_mid) (JStr ''root'') \<and>
   opt_field (Some null_child_mid) ''children'' = Some (JArr [JNull]) \<and>
   current_chain null_child_mid (JStr ''root'') = Inr (JStr (''root'' @ arrow_separator @ ''mid'')) \<and>
   extractChainFromTree scenario_runtime (Some null_child_root) (JStr []) = Inr None \<and>
   trees_loop scenario_runtime [] [null_child_root] = Inr [] \<and>
   getDependencyChain scenario_runtime
     (SpawnReturns (Some (marker_line @ [newline] @ null_child_line))) ''1.0.0''
     = ''Unable to parse yarn output''"
proof -
  have top: "getDependencyChain scenario_runtime
     (SpawnReturns (Some (marker_line @ [newline] @ null_child_line))) ''1.0.0''
     = ''Unable to parse yarn output''"
    by code_simp
  have fc: "first_child null_child_root = Some null_child_mid"
    by (simp add: first_child_def null_child_root_def member_def)
  have "calls scenario_runtime (Some null_child_root) (JStr [])
      (first_child null_child_root) (JStr ''root'')"
  proof (rule calls.descend [OF calls.start])
    show "truthy null_child_root" by (simp add: null_child_root_def)
    show "is_object null_child_root" by (simp add: null_child_root_def is_object_def)
    show "current_chain null_child_root (JStr []) = Inr (JStr ''root'')"
      by (simp add: current_chain_def node_name_def null_child_root_def member_def or_else_def)
    show "has_children scenario_runtime null_child_root = Inr True"
      by (simp add: has_children_def null_child_root_def member_def)
  qed
  then have c: "calls scenario_runtime (Some null_child_root) (JStr [])
      (Some null_child_mid) (JStr ''root'')"
    by (simp only: fc)
  have ch: "opt_field (Some null_child_mid) ''children'' = Some (JArr (JNull # []))"
    by (simp add: null_child_mid_def member_def)
  have cc: "current_chain null_child_mid (JStr ''root'')
      = Inr (JStr (''root'' @ arrow_separator @ ''mid''))"
    by (simp add: current_chain_def node_name_def null_child_mid_def member_def or_else_def)
  from bad_first_child_discards_chain [OF c ch] cc
  have "extractChainFromTree scenario_runtime (Some null_child_root) (JStr []) = Inr None \<and>
      (\<forall>chs. trees_loop scenario_runtime chs [null_child_root] = Inr chs)"
    by blast
  with c ch cc top show ?thesis by simp
qed

end
